theory Spec2Isabelle
  imports Complex_Main "HOL-Library.Multiset"
begin

section \<open>JavaScript values used by the service\<close>

text \<open>
  Strings are lists of characters. A JavaScript number is a double: \<open>NaN\<close>, \<open>-Infinity\<close>,
  \<open>Infinity\<close> or a finite value, given by the real number it stands for. The result of
  \<open>parseInt\<close>, \<open>+\<close>, \<open>*\<close> and \<open>/\<close> is the exact result rounded to the nearest double
  (\<open>roundDouble\<close>). \<open>Math.log10\<close>, which the language leaves to the implementation to
  approximate, and the literal \<open>0.4\<close> are taken as the exact reals; zero has no sign.
\<close>

datatype jsnum = NaN | NegInf | Fin real | PosInf

subsection \<open>Rounding to a double\<close>

text \<open>The number of binary digits of a positive integer.\<close>

function bitLength :: "int \<Rightarrow> nat" where
  "bitLength n = (if n \<le> 0 then 0 else Suc (bitLength (n div 2)))"
  by pat_completeness auto
termination
  by (relation "measure nat") auto

declare bitLength.simps [simp del]

text \<open>For \<open>a > 0\<close>, the exponent \<open>e\<close> with \<open>2^e \<le> a < 2^(e+1)\<close>.\<close>

definition binaryExponent :: "real \<Rightarrow> int" where
  "binaryExponent a =
     (if 1 \<le> a then int (bitLength \<lfloor>a\<rfloor>) - 1
      else - int (bitLength (\<lceil>1 / a\<rceil> - 1)))"

definition pow2 :: "int \<Rightarrow> real" where
  "pow2 e = (if 0 \<le> e then 2 ^ nat e else 1 / 2 ^ nat (- e))"

text \<open>The nearest integer, the even one of the two when they are equally near.\<close>

definition roundHalfEven :: "real \<Rightarrow> int" where
  "roundHalfEven q =
     (if q - of_int \<lfloor>q\<rfloor> < 1 / 2 then \<lfloor>q\<rfloor>
      else if 1 / 2 < q - of_int \<lfloor>q\<rfloor> then \<lfloor>q\<rfloor> + 1
      else if even \<lfloor>q\<rfloor> then \<lfloor>q\<rfloor> else \<lfloor>q\<rfloor> + 1)"

text \<open>
  The double nearest to a real, ties to the even significand: a double has 53 significant
  binary digits, so the doubles around \<open>a\<close> are the multiples of \<open>2^(e - 52)\<close>, with the
  exponent \<open>e\<close> of \<open>a\<close> but no exponent below \<open>-1022\<close>; a magnitude that rounds to
  \<open>2^1024\<close> or more is infinite.
\<close>

definition roundDouble :: "real \<Rightarrow> jsnum" where
  "roundDouble x =
     (if x = 0 then Fin 0
      else
        (let a = \<bar>x\<bar>;
             ulp = pow2 (max (binaryExponent a) (- 1022) - 52);
             r = of_int (roundHalfEven (a / ulp)) * ulp
         in if 1024 \<le> binaryExponent r then (if x < 0 then NegInf else PosInf)
            else Fin (if x < 0 then - r else r)))"

subsection \<open>Operations on numbers\<close>

fun js_add :: "jsnum \<Rightarrow> jsnum \<Rightarrow> jsnum" where
  "js_add NaN _ = NaN"
| "js_add _ NaN = NaN"
| "js_add PosInf NegInf = NaN"
| "js_add NegInf PosInf = NaN"
| "js_add PosInf _ = PosInf"
| "js_add _ PosInf = PosInf"
| "js_add NegInf _ = NegInf"
| "js_add _ NegInf = NegInf"
| "js_add (Fin a) (Fin b) = roundDouble (a + b)"

text \<open>Multiplication and division by a finite constant \<open>c > 0\<close> (3600, 60, 10).\<close>

fun js_scale :: "jsnum \<Rightarrow> real \<Rightarrow> jsnum" where
  "js_scale (Fin a) c = roundDouble (a * c)"
| "js_scale x c = x"

fun js_div_by :: "jsnum \<Rightarrow> real \<Rightarrow> jsnum" where
  "js_div_by (Fin a) c = roundDouble (a / c)"
| "js_div_by x c = x"

text \<open>\<open>a < b\<close>: false as soon as one side is \<open>NaN\<close>.\<close>

fun js_lt :: "jsnum \<Rightarrow> jsnum \<Rightarrow> bool" where
  "js_lt NaN _ = False"
| "js_lt _ NaN = False"
| "js_lt (Fin a) (Fin b) = (a < b)"
| "js_lt NegInf NegInf = False"
| "js_lt NegInf _ = True"
| "js_lt _ NegInf = False"
| "js_lt PosInf _ = False"
| "js_lt _ PosInf = True"

text \<open>\<open>Math.min(a, b)\<close>: \<open>NaN\<close> as soon as one argument is.\<close>

fun js_min :: "jsnum \<Rightarrow> jsnum \<Rightarrow> jsnum" where
  "js_min NaN _ = NaN"
| "js_min _ NaN = NaN"
| "js_min a b = (if js_lt b a then b else a)"

text \<open>\<open>Math.log10\<close>: \<open>NaN\<close> below zero, \<open>-Infinity\<close> at zero.\<close>

fun js_log10 :: "jsnum \<Rightarrow> jsnum" where
  "js_log10 NaN = NaN"
| "js_log10 NegInf = NaN"
| "js_log10 PosInf = PosInf"
| "js_log10 (Fin a) = (if a < 0 then NaN else if a = 0 then NegInf else Fin (log 10 a))"

text \<open>Truthiness of a number: \<open>NaN\<close> and \<open>0\<close> are falsy.\<close>

fun js_truthy_num :: "jsnum \<Rightarrow> bool" where
  "js_truthy_num NaN = False"
| "js_truthy_num (Fin a) = (a \<noteq> 0)"
| "js_truthy_num _ = True"

subsection \<open>Strings\<close>

definition isDigit :: "char \<Rightarrow> bool" where
  "isDigit c = (48 \<le> (of_char c :: nat) \<and> (of_char c :: nat) \<le> 57)"

definition toLowerChar :: "char \<Rightarrow> char" where
  "toLowerChar c =
     (case map_of (zip ''ABCDEFGHIJKLMNOPQRSTUVWXYZ'' ''abcdefghijklmnopqrstuvwxyz'') c of
        None \<Rightarrow> c
      | Some l \<Rightarrow> l)"

text \<open>
  \<open>String.prototype.toLowerCase\<close> on the characters this model has (bytes): only
  \<open>A\<close>..\<open>Z\<close> change.
\<close>

definition toLowerCase :: "string \<Rightarrow> string" where
  "toLowerCase s = map toLowerChar s"

definition startsWith :: "string \<Rightarrow> string \<Rightarrow> bool" where
  "startsWith s p = (take (length p) s = p)"

text \<open>\<open>hay.includes(needle)\<close>: the needle occurs somewhere in the string.\<close>

fun str_includes :: "string \<Rightarrow> string \<Rightarrow> bool" where
  "str_includes [] needle = (needle = [])"
| "str_includes (c # cs) needle = (startsWith (c # cs) needle \<or> str_includes cs needle)"

text \<open>\<open>parts.join(' ')\<close>.\<close>

fun join_space :: "string list \<Rightarrow> string" where
  "join_space [] = []"
| "join_space [s] = s"
| "join_space (s # t # ss) = s @ '' '' @ join_space (t # ss)"

subsection \<open>parseInt\<close>

text \<open>
  \<open>parseInt(s)\<close> with no radix: leading white space is skipped, then an optional sign, then
  an optional \<open>0x\<close>/\<open>0X\<close> (radix 16, otherwise 10), then the longest run of digits of the
  radix. No digit gives \<open>NaN\<close>; what follows the digits is ignored. The result is the
  double nearest to the integer the digits write.
\<close>

definition isWhiteSpace :: "char \<Rightarrow> bool" where
  "isWhiteSpace c = ((of_char c :: nat) \<in> {9, 10, 11, 12, 13, 32})"

definition digitValue :: "char \<Rightarrow> nat option" where
  "digitValue c =
     (let n = (of_char c :: nat) in
      if 48 \<le> n \<and> n \<le> 57 then Some (n - 48)
      else if 97 \<le> n \<and> n \<le> 122 then Some (n - 87)
      else if 65 \<le> n \<and> n \<le> 90 then Some (n - 55)
      else None)"

definition isRadixDigit :: "nat \<Rightarrow> char \<Rightarrow> bool" where
  "isRadixDigit r c = (case digitValue c of None \<Rightarrow> False | Some d \<Rightarrow> d < r)"

definition digitsValue :: "nat \<Rightarrow> string \<Rightarrow> nat" where
  "digitsValue r ds = foldl (\<lambda>a c. r * a + (case digitValue c of None \<Rightarrow> 0 | Some d \<Rightarrow> d)) 0 ds"

definition parseInt :: "string \<Rightarrow> jsnum" where
  "parseInt s =
     (let s1 = dropWhile isWhiteSpace s;
          neg = startsWith s1 ''-'';
          s2 = (if startsWith s1 ''-'' \<or> startsWith s1 ''+'' then drop 1 s1 else s1);
          hex = (startsWith s2 ''0x'' \<or> startsWith s2 ''0X'');
          r = (if hex then 16 else 10);
          s3 = (if hex then drop 2 s2 else s2);
          z = takeWhile (isRadixDigit r) s3
      in if z = [] then NaN
         else roundDouble (if neg then - real (digitsValue r z) else real (digitsValue r z)))"

section \<open>Duration parser\<close>

datatype error = TypeError | NoRecommendationsFound | NoRelatedVideosFound | ApiError "nat option"

text \<open>
  \<open>duration.match(/PT(\d+H)?(\d+M)?(\d+S)?/)\<close>. The pattern is not anchored: the match
  starts at the leftmost \<open>PT\<close>, and every group after it is optional, so the match succeeds
  exactly when the string contains \<open>PT\<close>. A group \<open>(\d+X)?\<close> takes the longest run of digits
  and needs the letter right after it; otherwise it is undefined and consumes nothing.
  \<open>afterPT\<close> is the text after the leftmost \<open>PT\<close>, \<open>None\<close> when there is none (a null match).
\<close>

fun afterPT :: "string \<Rightarrow> string option" where
  "afterPT (a # b # cs) = (if a = CHR ''P'' \<and> b = CHR ''T'' then Some cs else afterPT (b # cs))"
| "afterPT _ = None"

definition matchGroup :: "char \<Rightarrow> string \<Rightarrow> string option \<times> string" where
  "matchGroup x s =
     (let ds = takeWhile isDigit s; r = dropWhile isDigit s
      in if ds \<noteq> [] \<and> startsWith r [x] then (Some (ds @ [x]), drop 1 r) else (None, s))"

definition matchDuration :: "string \<Rightarrow> (string option \<times> string option \<times> string option) option" where
  "matchDuration d =
     (case afterPT d of
        None \<Rightarrow> None
      | Some s0 \<Rightarrow>
          (let (g1, s1) = matchGroup CHR ''H'' s0;
               (g2, s2) = matchGroup CHR ''M'' s1;
               (g3, s3) = matchGroup CHR ''S'' s2
           in Some (g1, g2, g3)))"

text \<open>A group is used when it is truthy: defined and not the empty string.\<close>

definition addGroup :: "string option \<Rightarrow> real \<Rightarrow> jsnum \<Rightarrow> jsnum" where
  "addGroup g c seconds =
     (case g of
        None \<Rightarrow> seconds
      | Some t \<Rightarrow> if t = [] then seconds else js_add seconds (js_scale (parseInt t) c))"

text \<open>\<open>parseDuration\<close>: reading \<open>match[1]\<close> of a null match throws a \<open>TypeError\<close>.\<close>

definition parseDuration :: "string \<Rightarrow> error + jsnum" where
  "parseDuration d =
     (case matchDuration d of
        None \<Rightarrow> Inl TypeError
      | Some (g1, g2, g3) \<Rightarrow>
          Inr (addGroup g3 1 (addGroup g2 60 (addGroup g1 3600 (Fin 0)))))"

section \<open>Video items and the short-form filter\<close>

text \<open>
  The records of the external API, with every part the code tests for presence as an
  option. An \<open>id\<close> is a string in a \<open>videos.list\<close> item and an object
  \<open>{kind, videoId}\<close> in a \<open>search.list\<close> item. \<open>height\<close> and \<open>width\<close> are what the
  destructuring of \<open>dimension\<close> finds: \<open>None\<close> is \<open>undefined\<close>.
\<close>

datatype video_id = IdString string | IdObject string

record dimension =
  height :: "int option"
  width :: "int option"

record contentDetails =
  duration :: string
  dimension :: "dimension option"

record snippet =
  title :: string
  description :: string
  tags :: "string list option"
  channelId :: string

record statistics =
  viewCount :: "string option"
  likeCount :: "string option"

record video =
  id_field :: "video_id option"
  snippet :: "snippet option"
  contentDetails :: "contentDetails option"
  statistics :: "statistics option"

definition shortsKeywords :: "string list" where
  "shortsKeywords =
     [''#shorts'', ''#short'', ''#ytshorts'', ''shorts/'', ''/shorts'', ''youtube.com/shorts'']"

definition textContent :: "snippet \<Rightarrow> string" where
  "textContent sn =
     toLowerCase (title sn @ '' '' @ description sn @ '' '' @
                  join_space (case tags sn of None \<Rightarrow> [] | Some ts \<Rightarrow> ts))"

text \<open>\<open>video.id && typeof video.id === 'string' && video.id.includes('/shorts/')\<close>\<close>

definition idHasShortsPath :: "video_id option \<Rightarrow> bool" where
  "idHasShortsPath i =
     (case i of
        Some (IdString s) \<Rightarrow> s \<noteq> [] \<and> str_includes s ''/shorts/''
      | _ \<Rightarrow> False)"

text \<open>\<open>height > width\<close>: false when a side is \<open>undefined\<close>.\<close>

definition isVertical :: "dimension \<Rightarrow> bool" where
  "isVertical dims =
     (case (height dims, width dims) of
        (Some h, Some w) \<Rightarrow> h > w
      | _ \<Rightarrow> False)"

definition isYoutubeShort :: "video \<Rightarrow> error + bool" where
  "isYoutubeShort v =
     (case contentDetails v of
        None \<Rightarrow> Inr True
      | Some cd \<Rightarrow>
          (case snippet v of
             None \<Rightarrow> Inr True
           | Some sn \<Rightarrow>
               (case parseDuration (duration cd) of
                  Inl e \<Rightarrow> Inl e
                | Inr d \<Rightarrow>
                    if js_lt d (Fin 180) then Inr True
                    else if list_ex (\<lambda>keyword. str_includes (textContent sn) keyword) shortsKeywords
                      then Inr True
                    else if idHasShortsPath (id_field v) then Inr True
                    else if (case dimension cd of None \<Rightarrow> False | Some dims \<Rightarrow> isVertical dims)
                      then Inr True
                    else Inr False)))"

section \<open>Video-ID extractor\<close>

text \<open>
  \<open>new URL(url)\<close> is the platform's parser; the model takes it as a parameter
  \<open>newURL\<close>, \<open>None\<close> when it throws. Of the parsed URL the code reads the host name, the
  path and the query parameters; \<open>searchParams.get\<close> returns the first value of a name.
\<close>

record url =
  hostname :: string
  pathname :: string
  searchParams :: "(string \<times> string) list"

text \<open>The body of the \<open>try\<close> block, then the function with its \<open>catch\<close>.\<close>

definition extractVideoId_try :: "(string \<Rightarrow> url option) \<Rightarrow> string \<Rightarrow> error + string option" where
  "extractVideoId_try newURL u =
     (case newURL u of
        None \<Rightarrow> Inl TypeError
      | Some urlObj \<Rightarrow>
          if str_includes (hostname urlObj) ''youtube.com''
            then Inr (map_of (searchParams urlObj) ''v'')
          else if str_includes (hostname urlObj) ''youtu.be''
            then Inr (Some (drop 1 (pathname urlObj)))
          else Inr None)"

definition extractVideoId :: "(string \<Rightarrow> url option) \<Rightarrow> string \<Rightarrow> string option" where
  "extractVideoId newURL u =
     (case extractVideoId_try newURL u of
        Inl e \<Rightarrow> None
      | Inr r \<Rightarrow> r)"

text \<open>What the callers test with \<open>!videoId\<close> and \<open>filter(Boolean)\<close>.\<close>

definition truthy :: "string option \<Rightarrow> bool" where
  "truthy r = (case r of None \<Rightarrow> False | Some s \<Rightarrow> s \<noteq> [])"

section \<open>The external API and the orchestrator\<close>

text \<open>
  The two calls of the API client are parameters. Each takes the state of the outside
  world and returns the new one, so a call may answer differently each time. A call that
  rejects returns \<open>Inl\<close> with the \<open>code\<close> of the error it throws, if it has one (403, 404);
  the service sees it as \<open>ApiError code\<close>. \<open>search_list\<close> receives the two request
  parameters that vary (the others are constants of the code).
\<close>

type_synonym api_failure = "nat option"

datatype related_key = KeyId video_id | KeyVideo video

record search_params =
  relatedToVideoId :: related_key
  pageToken_param :: "string option"

record search_response =
  resp_items :: "video list option"
  resp_nextPageToken :: "string option"

record 'w env =
  newURL :: "string \<Rightarrow> url option"
  videos_list :: "string \<Rightarrow> string \<Rightarrow> 'w \<Rightarrow> (api_failure + video list option) \<times> 'w"
  search_list :: "search_params \<Rightarrow> 'w \<Rightarrow> (api_failure + search_response) \<times> 'w"

record related_videos =
  rel_items :: "video list"
  rel_nextPageToken :: "string option"

record result_page =
  items :: "video list"
  nextPageToken :: "string option"

definition getVideoDetails :: "'w env \<Rightarrow> string \<Rightarrow> string \<Rightarrow> 'w \<Rightarrow> video option \<times> 'w" where
  "getVideoDetails env videoId apiKey w =
     (case videos_list env videoId apiKey w of
        (Inl code, w') \<Rightarrow> (None, w')
      | (Inr None, w') \<Rightarrow> (None, w')
      | (Inr (Some []), w') \<Rightarrow> (None, w')
      | (Inr (Some (v # vs)), w') \<Rightarrow> (Some v, w'))"

text \<open>\<open>videoDetails.id || videoDetails\<close>\<close>

definition relatedKey :: "video \<Rightarrow> related_key" where
  "relatedKey videoDetails =
     (case id_field videoDetails of
        None \<Rightarrow> KeyVideo videoDetails
      | Some (IdString s) \<Rightarrow> if s = [] then KeyVideo videoDetails else KeyId (IdString s)
      | Some (IdObject s) \<Rightarrow> KeyId (IdObject s))"

definition getRelatedVideos ::
  "'w env \<Rightarrow> video \<Rightarrow> string \<Rightarrow> string option \<Rightarrow> 'w \<Rightarrow> (error + related_videos) \<times> 'w" where
  "getRelatedVideos env videoDetails apiKey pageToken w =
     (let params = \<lparr>relatedToVideoId = relatedKey videoDetails,
                     pageToken_param = (if truthy pageToken then pageToken else None)\<rparr>
      in case search_list env params w of
           (Inl code, w') \<Rightarrow> (Inl (ApiError code), w')
         | (Inr response, w') \<Rightarrow>
             (case resp_items response of
                None \<Rightarrow> (Inl NoRelatedVideosFound, w')
              | Some [] \<Rightarrow> (Inl NoRelatedVideosFound, w')
              | Some (v # vs) \<Rightarrow>
                  (Inr \<lparr>rel_items = v # vs, rel_nextPageToken = resp_nextPageToken response\<rparr>, w')))"

text \<open>The \<open>for\<close> loop of \<open>processVideoUrls\<close>, with \<open>results\<close> as its accumulator.\<close>

fun processLoop ::
  "'w env \<Rightarrow> string \<Rightarrow> string option \<Rightarrow> string list \<Rightarrow> video list \<Rightarrow> 'w \<Rightarrow> (error + video list) \<times> 'w" where
  "processLoop env apiKey pageToken [] results w = (Inr results, w)"
| "processLoop env apiKey pageToken (u # urls) results w =
     (case extractVideoId (newURL env) u of
        None \<Rightarrow> processLoop env apiKey pageToken urls results w
      | Some videoId \<Rightarrow>
          if videoId = [] then processLoop env apiKey pageToken urls results w
          else
            (case getVideoDetails env videoId apiKey w of
               (None, w1) \<Rightarrow> processLoop env apiKey pageToken urls results w1
             | (Some videoDetails, w1) \<Rightarrow>
                 (case getRelatedVideos env videoDetails apiKey pageToken w1 of
                    (Inl e, w2) \<Rightarrow> (Inl e, w2)
                  | (Inr relatedVideos, w2) \<Rightarrow>
                      processLoop env apiKey pageToken urls
                        (if rel_items relatedVideos \<noteq> [] then results @ rel_items relatedVideos
                         else results) w2)))"

text \<open>\<open>results.filter(video => !isYoutubeShort(video))\<close>: the first throw ends it.\<close>

fun filterNotShort :: "video list \<Rightarrow> error + video list" where
  "filterNotShort [] = Inr []"
| "filterNotShort (v # vs) =
     (case isYoutubeShort v of
        Inl e \<Rightarrow> Inl e
      | Inr short \<Rightarrow>
          (case filterNotShort vs of
             Inl e \<Rightarrow> Inl e
           | Inr kept \<Rightarrow> Inr (if short then kept else v # kept)))"

definition MAX_RESULTS :: nat where
  "MAX_RESULTS = 15"

definition processVideoUrls ::
  "'w env \<Rightarrow> string list \<Rightarrow> string \<Rightarrow> string option \<Rightarrow> 'w \<Rightarrow> (error + result_page) \<times> 'w" where
  "processVideoUrls env videoUrls apiKey pageToken w =
     (case processLoop env apiKey pageToken videoUrls [] w of
        (Inl e, w') \<Rightarrow> (Inl e, w')
      | (Inr results, w') \<Rightarrow>
          if results = [] then (Inl NoRecommendationsFound, w')
          else
            (case filterNotShort results of
               Inl e \<Rightarrow> (Inl e, w')
             | Inr kept \<Rightarrow>
                 (Inr \<lparr>items = take MAX_RESULTS kept, nextPageToken = pageToken\<rparr>, w')))"

subsection \<open>History-file mode\<close>

text \<open>
  An entry of the watch history. \<open>time\<close> is the number \<open>new Date(entry.time)\<close> stands for
  in the comparator \<open>new Date(b.time) - new Date(a.time)\<close>; \<open>Array.prototype.sort\<close> is
  stable, as \<open>sort_key\<close> is.
\<close>

record watch_entry =
  titleUrl :: "string option"
  time :: int

definition isWatchEntry :: "watch_entry \<Rightarrow> bool" where
  "isWatchEntry entry =
     (case titleUrl entry of
        None \<Rightarrow> False
      | Some u \<Rightarrow> u \<noteq> [] \<and> str_includes u ''youtube.com/watch'')"

definition sortRecent :: "watch_entry list \<Rightarrow> watch_entry list" where
  "sortRecent entries = sort_key (\<lambda>entry. - time entry) entries"

text \<open>\<open>videoIds.add(videoId)\<close> on a \<open>Set\<close>, kept in insertion order.\<close>

definition setAdd :: "string list \<Rightarrow> string \<Rightarrow> string list" where
  "setAdd ids i = (if i \<in> set ids then ids else ids @ [i])"

definition addEntryId :: "(string \<Rightarrow> url option) \<Rightarrow> string list \<Rightarrow> watch_entry \<Rightarrow> string list" where
  "addEntryId parse ids entry =
     (case titleUrl entry of
        None \<Rightarrow> ids
      | Some u \<Rightarrow>
          (case extractVideoId parse u of
             None \<Rightarrow> ids
           | Some videoId \<Rightarrow> if videoId = [] then ids else setAdd ids videoId))"

definition watchUrl :: "string \<Rightarrow> string" where
  "watchUrl i = ''https://youtube.com/watch?v='' @ i"

definition takeoutVideoIds :: "(string \<Rightarrow> url option) \<Rightarrow> watch_entry list \<Rightarrow> string list" where
  "takeoutVideoIds parse watchHistory =
     foldl (addEntryId parse) [] (take 10 (sortRecent (filter isWatchEntry watchHistory)))"

definition processTakeoutFile ::
  "'w env \<Rightarrow> watch_entry list \<Rightarrow> string \<Rightarrow> 'w \<Rightarrow> (error + result_page) \<times> 'w" where
  "processTakeoutFile env watchHistory apiKey w =
     processVideoUrls env (map watchUrl (takeoutVideoIds (newURL env) watchHistory)) apiKey None w"

subsection \<open>The URL-list request handler\<close>

text \<open>
  \<open>handleUrlInput\<close>, as the status and the message it answers with; of a successful
  answer the model keeps the result page (the channel statistics are left out). The body's
  \<open>urls\<close> is \<open>None\<close> when it is not an array.
\<close>

datatype http_response = HttpError nat string | HttpOk result_page

definition errorCode :: "error \<Rightarrow> nat option" where
  "errorCode e = (case e of ApiError c \<Rightarrow> c | _ \<Rightarrow> None)"

definition handleUrlInput ::
  "'w env \<Rightarrow> string list option \<Rightarrow> string option \<Rightarrow> string \<Rightarrow> 'w \<Rightarrow> http_response \<times> 'w" where
  "handleUrlInput env body_urls pageToken apiKey w =
     (case body_urls of
        None \<Rightarrow> (HttpError 400 ''Please provide valid YouTube URLs'', w)
      | Some urls \<Rightarrow>
          if urls = [] then (HttpError 400 ''Please provide valid YouTube URLs'', w)
          else if length urls > 5
            then (HttpError 400 ''Maximum 5 URLs allowed at once for better recommendations'', w)
          else if filter truthy (map (extractVideoId (newURL env)) urls) = []
            then (HttpError 400 ''No valid YouTube URLs found'', w)
          else
            (case processVideoUrls env urls apiKey pageToken w of
               (Inl e, w') \<Rightarrow>
                 if errorCode e = Some 403
                   then (HttpError 403 ''YouTube API quota exceeded. Please try again later.'', w')
                 else if errorCode e = Some 404
                   then (HttpError 404
                     ''One or more videos not found. They might be private or deleted.'', w')
                 else (HttpError 500 ''Failed to get recommendations'', w')
             | (Inr result, w') \<Rightarrow>
                 if items result = []
                   then (HttpError 404 ''No recommendations found. Try different videos.'', w')
                 else (HttpOk result, w')))"

section \<open>Popularity term of the relevance score\<close>

text \<open>
  The first statements of the \<open>if (video.statistics)\<close> block of \<open>calculateRelevanceScore\<close>:
  \<open>viewCount = parseInt(statistics.viewCount) || 0\<close>,
  \<open>popularityScore = Math.min(0.4, Math.log10(viewCount) / 10)\<close> and
  \<open>score += popularityScore\<close>. \<open>parseInt(undefined)\<close> is \<open>NaN\<close>.
\<close>

definition parseIntField :: "string option \<Rightarrow> jsnum" where
  "parseIntField f = (case f of None \<Rightarrow> NaN | Some s \<Rightarrow> parseInt s)"

definition orZero :: "jsnum \<Rightarrow> jsnum" where
  "orZero x = (if js_truthy_num x then x else Fin 0)"

definition viewCountOf :: "statistics \<Rightarrow> jsnum" where
  "viewCountOf st = orZero (parseIntField (viewCount st))"

definition popularityScore :: "statistics \<Rightarrow> jsnum" where
  "popularityScore st = js_min (Fin (4 / 10)) (js_div_by (js_log10 (viewCountOf st)) 10)"

definition addPopularity :: "jsnum \<Rightarrow> statistics \<Rightarrow> jsnum" where
  "addPopularity score st = js_add score (popularityScore st)"

section \<open>Shuffle with relevance\<close>

text \<open>
  \<open>Math.random()\<close> is a parameter: \<open>rnd k\<close> is the value of the \<open>k\<close>-th call, and the
  functions return the number of calls made so far. \<open>Math.ceil(n / 3)\<close> is
  \<open>(n + 2) div 3\<close>.
\<close>

definition chunkSize :: "video list \<Rightarrow> nat" where
  "chunkSize videos = (length videos + 2) div 3"

definition slice :: "nat \<Rightarrow> nat \<Rightarrow> video list \<Rightarrow> video list" where
  "slice a b xs = take (b - a) (drop a xs)"

function splitChunks :: "video list \<Rightarrow> nat \<Rightarrow> video list list" where
  "splitChunks videos i =
     (if i < length videos
      then slice i (i + chunkSize videos) videos # splitChunks videos (i + chunkSize videos)
      else [])"
  by pat_completeness auto
termination
  by (relation "measure (\<lambda>(videos, i). length videos - i)") (auto simp: chunkSize_def)

declare splitChunks.simps [simp del]

text \<open>\<open>[chunk[i], chunk[j]] = [chunk[j], chunk[i]]\<close>\<close>

definition swap :: "nat \<Rightarrow> nat \<Rightarrow> video list \<Rightarrow> video list" where
  "swap i j chunk = chunk[i := chunk ! j, j := chunk ! i]"

text \<open>The loop \<open>for (i = chunk.length - 1; i > 0; i--)\<close>, from \<open>i\<close> down.\<close>

fun fisherYates :: "(nat \<Rightarrow> real) \<Rightarrow> nat \<Rightarrow> nat \<Rightarrow> video list \<Rightarrow> video list \<times> nat" where
  "fisherYates rnd k 0 chunk = (chunk, k)"
| "fisherYates rnd k (Suc i) chunk =
     fisherYates rnd (Suc k) i (swap (Suc i) (nat \<lfloor>rnd k * real (Suc i + 1)\<rfloor>) chunk)"

fun shuffleChunks :: "(nat \<Rightarrow> real) \<Rightarrow> nat \<Rightarrow> video list list \<Rightarrow> video list list \<times> nat" where
  "shuffleChunks rnd k [] = ([], k)"
| "shuffleChunks rnd k (chunk # chunks) =
     (case fisherYates rnd k (length chunk - 1) chunk of
        (chunk', k') \<Rightarrow>
          (case shuffleChunks rnd k' chunks of
             (chunks', k'') \<Rightarrow> (chunk' # chunks', k'')))"

text \<open>
  \<open>Math.max(...lengths)\<close> bounds the interleaving loop; of no chunk at all it is
  \<open>-Infinity\<close>, and the loop then runs as often as for \<open>0\<close>: never.
\<close>

definition maxLength :: "video list list \<Rightarrow> nat" where
  "maxLength chunks = foldr max (map length chunks) 0"

text \<open>
  \<open>if (chunk[i]) result.push(chunk[i])\<close>: an element is an object, which is truthy, and
  \<open>chunk[i]\<close> is \<open>undefined\<close> past the end of the chunk.
\<close>

definition interleave :: "video list list \<Rightarrow> video list" where
  "interleave chunks =
     concat (map (\<lambda>i. concat (map (\<lambda>chunk. if i < length chunk then [chunk ! i] else []) chunks))
                 [0 ..< maxLength chunks])"

definition shuffleWithRelevance :: "(nat \<Rightarrow> real) \<Rightarrow> nat \<Rightarrow> video list \<Rightarrow> video list \<times> nat" where
  "shuffleWithRelevance rnd k videos =
     (case shuffleChunks rnd k (splitChunks videos 0) of
        (chunks, k') \<Rightarrow> (interleave chunks, k'))"

section \<open>Reference inputs\<close>

subsection \<open>Well-formed durations\<close>

text \<open>
  A duration of the documented form: \<open>PT\<close>, then an optional number with \<open>H\<close>, an optional
  number with \<open>M\<close>, an optional number with \<open>S\<close>. A unit is given by its digits
  (\<open>None\<close> when it is absent); \<open>decimal\<close> writes a natural number in digits.
\<close>

fun unitText :: "string option \<Rightarrow> char \<Rightarrow> string" where
  "unitText None x = []"
| "unitText (Some ds) x = ds @ [x]"

text \<open>The group that the pattern captures for a unit.\<close>

fun unitGroup :: "string option \<Rightarrow> char \<Rightarrow> string option" where
  "unitGroup None x = None"
| "unitGroup (Some ds) x = Some (ds @ [x])"

definition durationText :: "string option \<Rightarrow> string option \<Rightarrow> string option \<Rightarrow> string" where
  "durationText h m s = ''PT'' @ unitText h CHR ''H'' @ unitText m CHR ''M'' @ unitText s CHR ''S''"

fun unitValue :: "string option \<Rightarrow> nat" where
  "unitValue None = 0"
| "unitValue (Some ds) = digitsValue 10 ds"

fun unitOk :: "string option \<Rightarrow> bool" where
  "unitOk None = True"
| "unitOk (Some ds) = (ds \<noteq> [] \<and> list_all isDigit ds)"

definition digitChar :: "nat \<Rightarrow> char" where
  "digitChar d = ''0123456789'' ! d"

fun decimal :: "nat \<Rightarrow> string" where
  "decimal n = (if n < 10 then [digitChar n] else decimal (n div 10) @ [digitChar (n mod 10)])"

declare decimal.simps [simp del]

fun amount :: "nat option \<Rightarrow> nat" where
  "amount None = 0"
| "amount (Some n) = n"

subsection \<open>Sample videos\<close>

definition landscape :: "dimension option" where
  "landscape = Some \<lparr>height = Some 720, width = Some 1280\<rparr>"

definition portrait :: "dimension option" where
  "portrait = Some \<lparr>height = Some 1280, width = Some 720\<rparr>"

text \<open>A \<open>videos.list\<close> item with the given id, duration, title and dimension.\<close>

definition sampleVideo :: "string \<Rightarrow> string \<Rightarrow> string \<Rightarrow> dimension option \<Rightarrow> video" where
  "sampleVideo i d t dm =
     \<lparr>id_field = Some (IdString i),
      snippet = Some \<lparr>title = t, description = ''A demo'', tags = Some [''Music'', ''Live''],
                      channelId = ''chan1''\<rparr>,
      contentDetails = Some \<lparr>duration = d, dimension = dm\<rparr>,
      statistics = None\<rparr>"

text \<open>A \<open>search.list\<close> item: \<open>part: 'snippet'\<close> brings no \<open>contentDetails\<close>.\<close>

definition searchItem :: "string \<Rightarrow> string \<Rightarrow> video" where
  "searchItem i t =
     \<lparr>id_field = Some (IdObject i),
      snippet = Some \<lparr>title = t, description = ''A demo'', tags = None, channelId = ''chan2''\<rparr>,
      contentDetails = None,
      statistics = None\<rparr>"

subsection \<open>A URL parser for the samples\<close>

text \<open>
  \<open>plainURL\<close> reads a URL of the plain shape \<open>http(s)://host/path?query#fragment\<close>, in
  lower-case ASCII with no port, user name, escape or dot segment, as the platform's
  parser does. It stands for \<open>new URL\<close> where a statement is evaluated on a sample; the
  general statements hold for every parser.
\<close>

fun splitOn :: "char \<Rightarrow> string \<Rightarrow> string list" where
  "splitOn c [] = [[]]"
| "splitOn c (x # xs) =
     (if x = c then [] # splitOn c xs
      else (case splitOn c xs of [] \<Rightarrow> [[x]] | p # ps \<Rightarrow> (x # p) # ps))"

definition queryPair :: "string \<Rightarrow> string \<times> string" where
  "queryPair kv = (takeWhile (\<lambda>c. c \<noteq> CHR ''='') kv, drop 1 (dropWhile (\<lambda>c. c \<noteq> CHR ''='') kv))"

definition plainURL :: "string \<Rightarrow> url option" where
  "plainURL u =
     (case (if startsWith u ''https://'' then Some (drop 8 u)
            else if startsWith u ''http://'' then Some (drop 7 u) else None) of
        None \<Rightarrow> None
      | Some r \<Rightarrow>
          (let host = takeWhile (\<lambda>c. c \<notin> set ''/?#'') r;
               r1 = dropWhile (\<lambda>c. c \<notin> set ''/?#'') r;
               path = takeWhile (\<lambda>c. c \<notin> set ''?#'') r1;
               r2 = dropWhile (\<lambda>c. c \<notin> set ''?#'') r1;
               query = (if startsWith r2 ''?'' then takeWhile (\<lambda>c. c \<noteq> CHR ''#'') (drop 1 r2) else [])
           in if host = [] then None
              else Some \<lparr>hostname = host,
                         pathname = (if path = [] then ''/'' else path),
                         searchParams = map queryPair (filter (\<lambda>p. p \<noteq> []) (splitOn CHR ''&'' query))\<rparr>))"

subsection \<open>A sample outside world\<close>

text \<open>
  The related videos the sample API returns for a source: for each \<open>n\<close> below the given
  number a video of \<open>12 + n\<close> minutes and a clip of 45 seconds.
\<close>

definition longSample :: "string \<Rightarrow> nat \<Rightarrow> video" where
  "longSample i n =
     sampleVideo (i @ ''-long-'' @ decimal n) (''PT'' @ decimal (12 + n) @ ''M'') ''Long talk'' landscape"

definition clipSample :: "string \<Rightarrow> nat \<Rightarrow> video" where
  "clipSample i n = sampleVideo (i @ ''-clip-'' @ decimal n) ''PT45S'' ''Clip'' landscape"

definition relatedSample :: "string \<Rightarrow> nat \<Rightarrow> video list" where
  "relatedSample i cnt = concat (map (\<lambda>n. [longSample i n, clipSample i n]) [0 ..< cnt])"

text \<open>
  The world is the number of calls made. \<open>videos.list\<close> knows no video \<open>gone\<close> and rejects
  \<open>denied\<close>; \<open>search.list\<close> rejects the source \<open>quota\<close> with code 403, finds nothing for
  \<open>lonely\<close>, returns plain search items (no \<open>contentDetails\<close>) for \<open>search\<close>, and ten
  long videos and ten clips for any other source.
\<close>

definition sampleEnv :: "nat env" where
  "sampleEnv =
     \<lparr>newURL = plainURL,
      videos_list = (\<lambda>videoId apiKey w.
        (if videoId = ''gone'' then Inr (Some [])
         else if videoId = ''denied'' then Inl (Some 403)
         else Inr (Some [sampleVideo videoId ''PT10M'' ''Source'' landscape]), Suc w)),
      search_list = (\<lambda>params w.
        (if relatedToVideoId params = KeyId (IdString ''quota'') then Inl (Some 403)
         else if relatedToVideoId params = KeyId (IdString ''lonely'')
           then Inr \<lparr>resp_items = Some [], resp_nextPageToken = None\<rparr>
         else if relatedToVideoId params = KeyId (IdString ''search'')
           then Inr \<lparr>resp_items = Some [searchItem ''r1'' ''One'', searchItem ''r2'' ''Two''],
                     resp_nextPageToken = Some ''NEXT''\<rparr>
         else Inr \<lparr>resp_items = Some (case relatedToVideoId params of
                                          KeyId (IdString i) \<Rightarrow> relatedSample i 10
                                        | _ \<Rightarrow> []),
                    resp_nextPageToken = Some ''NEXT''\<rparr>, Suc w))\<rparr>"

subsection \<open>Notions of the statements\<close>

text \<open>
  \<open>retoken f env\<close> is the world of \<open>env\<close> in which every answer of \<open>search.list\<close> carries the
  \<open>nextPageToken\<close> that \<open>f\<close> chooses for the request, and nothing else differs.
\<close>

definition retoken :: "(search_params \<Rightarrow> 'w \<Rightarrow> string option) \<Rightarrow> 'w env \<Rightarrow> 'w env" where
  "retoken f env =
     env\<lparr>search_list := (\<lambda>params w.
       (case search_list env params w of
          (Inl code, w') \<Rightarrow> (Inl code, w')
        | (Inr response, w') \<Rightarrow> (Inr (response\<lparr>resp_nextPageToken := f params w\<rparr>), w')))\<rparr>"

text \<open>What \<open>getVideoDetails\<close> takes as a failed or empty answer of \<open>videos.list\<close>.\<close>

definition detailsMissing :: "api_failure + video list option \<Rightarrow> bool" where
  "detailsMissing r =
     (case r of
        Inl code \<Rightarrow> True
      | Inr None \<Rightarrow> True
      | Inr (Some []) \<Rightarrow> True
      | Inr (Some (v # vs)) \<Rightarrow> False)"

text \<open>What \<open>handleUrlInput\<close> lets through to the service.\<close>

definition acceptedUrls :: "'w env \<Rightarrow> string list \<Rightarrow> bool" where
  "acceptedUrls env urls =
     (urls \<noteq> [] \<and> length urls \<le> 5 \<and> list_ex (\<lambda>u. truthy (extractVideoId (newURL env) u)) urls)"

subsection \<open>A sample request\<close>

text \<open>
  A request with two sources that resolve, a string that is no URL and a video that
  \<open>videos.list\<close> does not know.
\<close>

definition sampleUrls :: "string list" where
  "sampleUrls =
     [''https://youtu.be/aa'', ''nonsense'', ''https://youtu.be/gone'',
      ''https://www.youtube.com/watch?v=bb'']"

text \<open>The ten long videos of the first source and the first five of the second.\<close>

definition samplePage :: result_page where
  "samplePage =
     \<lparr>items = map (longSample ''aa'') [0 ..< 10] @ map (longSample ''bb'') [0 ..< 5],
      nextPageToken = None\<rparr>"

subsection \<open>A sample watch history\<close>

text \<open>
  Twelve watch entries, one per second, over seven videos, then a playlist entry and an
  entry without URL.
\<close>

definition sampleHistory :: "watch_entry list" where
  "sampleHistory =
     map (\<lambda>n. \<lparr>titleUrl = Some (''https://www.youtube.com/watch?v=id'' @ decimal (n mod 7)),
                time = int n * 1000\<rparr>) [0 ..< 12]
     @ [\<lparr>titleUrl = Some ''https://www.youtube.com/playlist?list=x'', time = 99000\<rparr>,
        \<lparr>titleUrl = None, time = 5000\<rparr>]"

subsection \<open>A sample shuffle\<close>

text \<open>Videos named by their ids, and a random source that goes through 0.2, 0.55 and 0.9.\<close>

definition sampleList :: "string list \<Rightarrow> video list" where
  "sampleList ids = map (\<lambda>i. searchItem i ''T'') ids"

definition sampleRnd :: "nat \<Rightarrow> real" where
  "sampleRnd k = (if k mod 3 = 0 then 2 / 10 else if k mod 3 = 1 then 55 / 100 else 9 / 10)"

section \<open>Properties of the rounding\<close>

lemma bitLength_bounds: "0 < n \<Longrightarrow> 2 ^ (bitLength n - 1) \<le> n \<and> n < 2 ^ bitLength n"
proof (induction n rule: bitLength.induct)
  case (1 n)
  show ?case
  proof (cases "n div 2 \<le> 0")
    case True
    with 1(2) have n: "n = 1" by linarith
    have "bitLength 1 = Suc (bitLength 0)" by (simp add: bitLength.simps[of 1])
    also have "bitLength 0 = 0" by (simp add: bitLength.simps[of 0])
    finally show ?thesis unfolding n by simp
  next
    case False
    then have pos: "0 < n div 2" by simp
    have npos: "\<not> n \<le> 0" using 1(2) by simp
    from 1(1)[OF npos pos] have ih: "2 ^ (bitLength (n div 2) - 1) \<le> n div 2" "n div 2 < 2 ^ bitLength (n div 2)"
      by simp_all
    have bl: "bitLength n = Suc (bitLength (n div 2))"
      using 1(2) by (simp add: bitLength.simps[of n])
    obtain k where k: "bitLength (n div 2) = Suc k"
      using pos by (simp add: bitLength.simps[of "n div 2"])
    have "(2::int) ^ Suc k \<le> n"
      using ih(1) unfolding k by (simp | linarith)+
    moreover have "n < 2 ^ Suc (Suc k)"
      using ih(2) unfolding k by (simp | linarith)+
    ultimately show ?thesis unfolding bl k by simp
  qed
qed

lemma roundHalfEven_int: "roundHalfEven (of_int z) = z"
  by (simp add: roundHalfEven_def)

lemma binaryExponent_int:
  assumes "0 < n"
  shows "0 \<le> binaryExponent (of_int n)" "pow2 (binaryExponent (of_int n)) \<le> of_int n"
    "of_int n < pow2 (binaryExponent (of_int n) + 1)"
proof -
  from assms obtain k where k: "bitLength n = Suc k"
    by (simp add: bitLength.simps[of n])
  have e: "binaryExponent (of_int n) = int k"
    using assms by (simp add: binaryExponent_def k)
  note b = bitLength_bounds[OF assms, unfolded k]
  show "0 \<le> binaryExponent (of_int n)" by (simp add: e)
  have "(of_int ((2::int) ^ k) :: real) \<le> of_int n" using b by (intro of_int_le_iff[THEN iffD2]) simp
  then show "pow2 (binaryExponent (of_int n)) \<le> of_int n" by (simp add: e pow2_def)
  have "(of_int n :: real) < of_int ((2::int) ^ Suc k)" using b by (intro of_int_less_iff[THEN iffD2]) simp
  then show "of_int n < pow2 (binaryExponent (of_int n) + 1)" by (simp add: e pow2_def nat_add_distrib)
qed

lemma binaryExponent_le:
  assumes "0 < n" "n < 2 ^ m"
  shows "binaryExponent (of_int n) < int m"
proof -
  from assms obtain k where k: "bitLength n = Suc k"
    by (simp add: bitLength.simps[of n])
  have e: "binaryExponent (of_int n) = int k"
    using assms by (simp add: binaryExponent_def k)
  from bitLength_bounds[OF assms(1), unfolded k] have "(2::int) ^ k \<le> n" by simp
  then have "(2::int) ^ k < 2 ^ m" using assms(2) by (rule le_less_trans)
  then have "k < m" by (rule power_less_imp_less_exp[rotated]) simp
  then show ?thesis by (simp add: e)
qed

text \<open>An integer of magnitude up to \<open>2^53\<close> is a double.\<close>

lemma roundDouble_pos:
  assumes "0 < n" "n \<le> 2 ^ 53"
  shows "roundDouble (of_int n) = Fin (of_int n) \<and> roundDouble (- of_int n) = Fin (- of_int n)"
proof -
  let ?e = "binaryExponent (of_int n)"
  have e0: "0 \<le> ?e" using binaryExponent_int(1)[OF assms(1)] .
  have "n < 2 ^ 54" using assms(2) by simp
  then have e54: "?e < 54" using binaryExponent_le[OF assms(1), of 54] by simp
  have small: "?e < 1024" using e54 by simp
  have mx: "max ?e (- 1022) = ?e" using e0 by simp
  have q: "\<exists>z. (of_int n :: real) / pow2 (?e - 52) = of_int z"
  proof (cases "?e \<le> 52")
    case True
    then have "pow2 (?e - 52) = 1 / 2 ^ nat (52 - ?e)"
      by (cases "?e = 52") (simp_all add: pow2_def)
    then have "(of_int n :: real) / pow2 (?e - 52) = of_int (n * 2 ^ nat (52 - ?e))"
      by simp
    then show ?thesis by blast
  next
    case False
    with e54 have e: "?e = 53" by simp
    have "pow2 53 \<le> of_int n" using binaryExponent_int(2)[OF assms(1)] unfolding e .
    then have "(of_int ((2::int) ^ 53) :: real) \<le> of_int n" by (simp add: pow2_def)
    then have "(2::int) ^ 53 \<le> n" by (rule of_int_le_iff[THEN iffD1])
    with assms(2) have n: "n = 2 ^ 53" by simp
    have "(of_int n :: real) / pow2 (?e - 52) = of_int (2 ^ 52)"
      unfolding e by (simp add: pow2_def n)
    then show ?thesis by blast
  qed
  then obtain z where z: "(of_int n :: real) / pow2 (?e - 52) = of_int z" ..
  have ulp: "pow2 (?e - 52) \<noteq> 0" by (simp add: pow2_def)
  have r: "of_int (roundHalfEven ((of_int n :: real) / pow2 (?e - 52))) * pow2 (?e - 52) = of_int n"
    unfolding z roundHalfEven_int using z ulp by (simp add: field_simps)
  have npos: "(of_int n :: real) \<noteq> 0" "\<bar>of_int n :: real\<bar> = of_int n" "\<not> (of_int n :: real) < 0"
    using assms(1) by simp_all
  have nneg: "\<bar>- of_int n :: real\<bar> = of_int n" "(- of_int n :: real) < 0" "(- of_int n :: real) \<noteq> 0"
    using assms(1) by simp_all
  have p: "roundDouble (of_int n) = Fin (of_int n)"
    unfolding roundDouble_def Let_def npos(2) mx r using npos small by simp
  have m: "roundDouble (- of_int n) = Fin (- of_int n)"
    unfolding roundDouble_def Let_def nneg(1) mx r using nneg small by simp
  from p m show ?thesis ..
qed

lemma roundDouble_int: "\<bar>n\<bar> \<le> 2 ^ 53 \<Longrightarrow> roundDouble (of_int n) = Fin (of_int n)"
proof -
  assume a: "\<bar>n\<bar> \<le> 2 ^ 53"
  consider "n = 0" | "0 < n" | "n < 0" by linarith
  then show ?thesis
  proof cases
    case 1
    then show ?thesis by (simp add: roundDouble_def)
  next
    case 2
    with a roundDouble_pos[of n] show ?thesis by simp
  next
    case 3
    with a roundDouble_pos[of "- n"] show ?thesis by simp
  qed
qed

lemma roundDouble_nat: "n \<le> 2 ^ 53 \<Longrightarrow> roundDouble (real n) = Fin (real n)"
proof -
  assume "n \<le> 2 ^ 53"
  then have "int n \<le> int (2 ^ 53)" by (rule of_nat_mono)
  then have "\<bar>int n\<bar> \<le> 2 ^ 53" by simp
  then have "roundDouble (of_int (int n)) = Fin (of_int (int n))" by (rule roundDouble_int)
  then show ?thesis by simp
qed

lemma roundDouble_numeral:
  "numeral k \<le> (9007199254740992 :: int) \<Longrightarrow> roundDouble (numeral k) = Fin (numeral k)"
  "numeral k \<le> (9007199254740992 :: int) \<Longrightarrow> roundDouble (- numeral k) = Fin (- numeral k)"
  using roundDouble_int[of "numeral k"] roundDouble_int[of "- numeral k"] by simp_all

lemma roundDouble_0_1: "roundDouble 0 = Fin 0" "roundDouble 1 = Fin 1"
  using roundDouble_int[of 0] roundDouble_int[of 1] by simp_all

lemmas roundDouble_eval = roundDouble_numeral roundDouble_0_1

text \<open>For evaluation: an integer within \<open>2^53\<close> needs no rounding.\<close>

lemma roundDouble_code [code]:
  "roundDouble x =
     (if x = of_int \<lfloor>x\<rfloor> \<and> \<bar>x\<bar> \<le> 9007199254740992 then Fin x
      else if x = 0 then Fin 0
      else
        (let a = \<bar>x\<bar>;
             ulp = pow2 (max (binaryExponent a) (- 1022) - 52);
             r = of_int (roundHalfEven (a / ulp)) * ulp
         in if 1024 \<le> binaryExponent r then (if x < 0 then NegInf else PosInf)
            else Fin (if x < 0 then - r else r)))"
proof (cases "x = of_int \<lfloor>x\<rfloor> \<and> \<bar>x\<bar> \<le> 9007199254740992")
  case True
  then have x: "x = of_int \<lfloor>x\<rfloor>" and "\<bar>of_int \<lfloor>x\<rfloor> :: real\<bar> \<le> 9007199254740992"
    by simp_all
  then have "(of_int \<bar>\<lfloor>x\<rfloor>\<bar> :: real) \<le> of_int 9007199254740992" by simp
  then have "\<bar>\<lfloor>x\<rfloor>\<bar> \<le> 9007199254740992" by (simp only: of_int_le_iff)
  then have "\<bar>\<lfloor>x\<rfloor>\<bar> \<le> 2 ^ 53" by simp
  then have "roundDouble (of_int \<lfloor>x\<rfloor>) = Fin (of_int \<lfloor>x\<rfloor>)" by (rule roundDouble_int)
  then have "roundDouble x = Fin x" using x by simp
  with True show ?thesis by simp
next
  case False
  show ?thesis unfolding if_not_P[OF False] by (rule roundDouble_def)
qed

text \<open>\<open>2^53 + 1\<close> lies halfway between the doubles \<open>2^53\<close> and \<open>2^53 + 2\<close>.\<close>

lemma roundDouble_halfway: "roundDouble 9007199254740993 = Fin 9007199254740992"
  by code_simp

section \<open>Properties of the duration parser\<close>

lemma takeWhile_digits:
  "\<forall>c\<in>set ds. isDigit c \<Longrightarrow> \<not> isDigit x \<Longrightarrow> takeWhile isDigit (ds @ x # r) = ds"
  by (induction ds) auto

lemma dropWhile_digits:
  "\<forall>c\<in>set ds. isDigit c \<Longrightarrow> \<not> isDigit x \<Longrightarrow> dropWhile isDigit (ds @ x # r) = x # r"
  by (induction ds) auto

lemma isRadixDigit_10: "isRadixDigit 10 c = isDigit c"
  by (auto simp: isRadixDigit_def digitValue_def isDigit_def Let_def)

lemma digit_not_space: "isDigit c \<Longrightarrow> \<not> isWhiteSpace c"
  by (auto simp: isDigit_def isWhiteSpace_def)

lemma digit_not_sign:
  "isDigit c \<Longrightarrow> c \<noteq> CHR ''-'' \<and> c \<noteq> CHR ''+'' \<and> c \<noteq> CHR ''x'' \<and> c \<noteq> CHR ''X''"
  by (auto simp: isDigit_def)

text \<open>
  On a captured group, digits and then a letter, \<open>parseInt\<close> reads the digits in base 10
  and rounds.
\<close>

lemma parseInt_group:
  assumes "ds \<noteq> []" "\<forall>c\<in>set ds. isDigit c" "\<not> isDigit x" "x \<noteq> CHR ''x''" "x \<noteq> CHR ''X''"
  shows "parseInt (ds @ [x]) = roundDouble (real (digitsValue 10 ds))"
proof -
  obtain d ds' where ds: "ds = d # ds'" using assms(1) by (cases ds) auto
  have d: "isDigit d" using assms(2) ds by simp
  have nohex: "\<not> startsWith (ds @ [x]) ''0x''" "\<not> startsWith (ds @ [x]) ''0X''"
    using assms ds digit_not_sign by (cases ds'; auto simp: startsWith_def)+
  have tw: "takeWhile (isRadixDigit 10) (ds @ [x]) = ds"
    using takeWhile_digits[OF assms(2,3), of "[]"] by (simp add: isRadixDigit_10[abs_def])
  have s1: "dropWhile isWhiteSpace (ds @ [x]) = ds @ [x]"
    using d ds digit_not_space by simp
  have nosign: "\<not> startsWith (ds @ [x]) ''-''" "\<not> startsWith (ds @ [x]) ''+''"
    using d ds digit_not_sign by (auto simp: startsWith_def)
  show ?thesis
    unfolding parseInt_def s1 Let_def using nohex nosign tw assms(1) by simp
qed

lemma parseInt_unit:
  "ds \<noteq> [] \<Longrightarrow> list_all isDigit ds \<Longrightarrow> x \<in> {CHR ''H'', CHR ''M'', CHR ''S''} \<Longrightarrow>
   parseInt (ds @ [x]) = roundDouble (real (digitsValue 10 ds))"
  by (rule parseInt_group) (auto simp: list_all_iff isDigit_def)

lemma matchGroup_hit:
  "ds \<noteq> [] \<Longrightarrow> list_all isDigit ds \<Longrightarrow> \<not> isDigit x \<Longrightarrow>
   matchGroup x (ds @ x # r) = (Some (ds @ [x]), r)"
  by (simp add: matchGroup_def takeWhile_digits dropWhile_digits startsWith_def list_all_iff)

lemma matchGroup_miss_other:
  "list_all isDigit ds \<Longrightarrow> \<not> isDigit y \<Longrightarrow> y \<noteq> x \<Longrightarrow>
   matchGroup x (ds @ y # r) = (None, ds @ y # r)"
  by (simp add: matchGroup_def takeWhile_digits dropWhile_digits startsWith_def list_all_iff)

lemma matchGroup_Nil: "matchGroup x [] = (None, [])"
  by (simp add: matchGroup_def startsWith_def)

lemma letters_not_digits:
  "\<not> isDigit CHR ''H''" "\<not> isDigit CHR ''M''" "\<not> isDigit CHR ''S''"
  by (simp_all add: isDigit_def)

text \<open>The groups of a well-formed duration are its units.\<close>

lemma parseDuration_groups:
  assumes "unitOk h" "unitOk m" "unitOk s"
  shows "parseDuration (durationText h m s) =
         Inr (addGroup (unitGroup s CHR ''S'') 1
               (addGroup (unitGroup m CHR ''M'') 60
                 (addGroup (unitGroup h CHR ''H'') 3600 (Fin 0))))"
  using assms
  by (cases h; cases m; cases s)
     (simp_all add: durationText_def parseDuration_def matchDuration_def
        matchGroup_hit matchGroup_miss_other matchGroup_Nil letters_not_digits)

text \<open>Adding a unit is exact as long as the sum stays within \<open>2^53\<close>.\<close>

lemma addGroup_exact:
  assumes "unitOk u" "x \<in> {CHR ''H'', CHR ''M'', CHR ''S''}" "0 < c"
    and bound: "a + unitValue u * c \<le> 2 ^ 53"
  shows "addGroup (unitGroup u x) (real c) (Fin (real a)) = Fin (real (a + unitValue u * c))"
proof (cases u)
  case None
  then show ?thesis by (simp add: addGroup_def)
next
  case (Some ds)
  let ?v = "digitsValue 10 ds"
  from Some assms(1) have ds: "ds \<noteq> []" "list_all isDigit ds" by simp_all
  have uv: "unitValue u = ?v" using Some by simp
  have "?v * c \<le> a + ?v * c" by simp
  also have "\<dots> \<le> 2 ^ 53" using bound unfolding uv .
  finally have vc: "?v * c \<le> 2 ^ 53" .
  have "?v * 1 \<le> ?v * c" using assms(3) by (intro mult_le_mono2) simp
  then have "?v \<le> ?v * c" by simp
  then have v: "?v \<le> 2 ^ 53" using vc by (rule le_trans)
  have p: "parseInt (ds @ [x]) = Fin (real ?v)"
    using parseInt_unit[OF ds assms(2)] roundDouble_nat[OF v] by simp
  have "js_scale (Fin (real ?v)) (real c) = roundDouble (real (?v * c))"
    by simp
  then have sc: "js_scale (Fin (real ?v)) (real c) = Fin (real (?v * c))"
    using roundDouble_nat[OF vc] by simp
  have "js_add (Fin (real a)) (Fin (real (?v * c))) = roundDouble (real (a + ?v * c))"
    by simp
  then have ad: "js_add (Fin (real a)) (Fin (real (?v * c))) = Fin (real (a + ?v * c))"
    using roundDouble_nat[of "a + ?v * c"] bound unfolding uv by simp
  show ?thesis
    unfolding Some unitGroup.simps addGroup_def option.case p sc ad unitValue.simps
    using ds(1) by simp
qed

lemma parseDuration_units:
  assumes "unitOk h" "unitOk m" "unitOk s"
    and bound: "3600 * unitValue h + 60 * unitValue m + unitValue s \<le> 2 ^ 53"
  shows "parseDuration (durationText h m s) =
         Inr (Fin (real (3600 * unitValue h + 60 * unitValue m + unitValue s)))"
proof -
  have b1: "0 + unitValue h * 3600 \<le> 2 ^ 53" using bound by simp
  have b2: "(0 + unitValue h * 3600) + unitValue m * 60 \<le> 2 ^ 53" using bound by simp
  have b3: "((0 + unitValue h * 3600) + unitValue m * 60) + unitValue s * 1 \<le> 2 ^ 53"
    using bound by simp
  have g1: "addGroup (unitGroup h CHR ''H'') 3600 (Fin 0) = Fin (real (0 + unitValue h * 3600))"
    using addGroup_exact[OF assms(1) _ _ b1, of "CHR ''H''"] by simp
  have g2: "addGroup (unitGroup m CHR ''M'') 60 (Fin (real (0 + unitValue h * 3600))) =
            Fin (real ((0 + unitValue h * 3600) + unitValue m * 60))"
    using addGroup_exact[OF assms(2) _ _ b2, of "CHR ''M''"] by simp
  have g3: "addGroup (unitGroup s CHR ''S'') 1 (Fin (real ((0 + unitValue h * 3600) + unitValue m * 60))) =
            Fin (real (((0 + unitValue h * 3600) + unitValue m * 60) + unitValue s * 1))"
    using addGroup_exact[OF assms(3) _ _ b3, of "CHR ''S''"] by simp
  have total: "((0 + unitValue h * 3600) + unitValue m * 60) + unitValue s * 1 =
               3600 * unitValue h + 60 * unitValue m + unitValue s"
    by simp
  show ?thesis
    unfolding parseDuration_groups[OF assms(1,2,3)] g1 g2 g3 total ..
qed

lemma digitChar_digit: "d < 10 \<Longrightarrow> isDigit (digitChar d) \<and> digitValue (digitChar d) = Some d"
proof -
  assume "d < 10"
  then have "d \<in> {0,1,2,3,4,5,6,7,8,9}" by auto
  then show ?thesis
    by (auto simp: digitChar_def isDigit_def digitValue_def)
qed

lemma decimal_digits: "decimal n \<noteq> [] \<and> list_all isDigit (decimal n)"
proof (induction n rule: decimal.induct)
  case (1 n)
  show ?case
  proof (cases "n < 10")
    case True
    then show ?thesis using digitChar_digit[of n] by (simp add: decimal.simps[of n])
  next
    case False
    then show ?thesis using 1 digitChar_digit[of "n mod 10"] by (simp add: decimal.simps[of n])
  qed
qed

lemma digitsValue_snoc:
  "digitsValue r (ds @ [c]) = r * digitsValue r ds + (case digitValue c of None \<Rightarrow> 0 | Some d \<Rightarrow> d)"
  by (simp add: digitsValue_def)

lemma digitsValue_decimal: "digitsValue 10 (decimal n) = n"
proof (induction n rule: decimal.induct)
  case (1 n)
  show ?case
  proof (cases "n < 10")
    case True
    then show ?thesis using digitChar_digit[of n]
      by (simp add: decimal.simps[of n] digitsValue_def)
  next
    case False
    then show ?thesis using 1 digitChar_digit[of "n mod 10"]
      by (simp add: decimal.simps[of n] digitsValue_snoc)
  qed
qed

lemma unit_decimal: "unitOk (map_option decimal a) \<and> unitValue (map_option decimal a) = amount a"
  by (cases a) (simp_all add: decimal_digits digitsValue_decimal)

lemmas parseDuration_eval =
  parseDuration_def matchDuration_def matchGroup_def isDigit_def startsWith_def addGroup_def
  parseInt_def isWhiteSpace_def isRadixDigit_def digitValue_def digitsValue_def roundDouble_eval

text \<open>A string without \<open>PT\<close> gives a null match, and reading its groups throws.\<close>

lemma parseDuration_no_PT:
  "parseDuration ''P1D'' = Inl TypeError \<and> parseDuration [] = Inl TypeError"
  by (simp add: parseDuration_eval)

text \<open>
  C3, as stated, fails on a duration of the documented form whose number is no double:
  \<open>2^53 + 1\<close> seconds lie halfway between two doubles, \<open>parseInt\<close> returns the even one,
  and \<open>parseDuration\<close> returns 9007199254740992 where the total is 9007199254740993.
\<close>

theorem parseDuration_rounding_counterexample:
  "parseDuration (durationText None None (Some ''9007199254740993'')) = Inr (Fin 9007199254740992)"
  by (simp add: durationText_def parseDuration_eval roundDouble_halfway)

text \<open>
  C3, amended. On every duration of the form \<open>PT\<close> followed by optional \<open>H\<close>, \<open>M\<close> and \<open>S\<close>
  numbers whose total \<open>3600 * hours + 60 * minutes + seconds\<close> is at most \<open>2^53\<close>,
  \<open>parseDuration\<close> returns that total, a natural number: for units given by any digits
  (leading zeros included), and so for the decimal writing of any natural numbers.
  \<open>PT1H2M3S\<close> gives 3723, \<open>PT45S\<close> 45, \<open>PT10M\<close> 600, and \<open>PT0S\<close> and the bare \<open>PT\<close> give 0.
\<close>

theorem parseDuration_total_seconds:
  "(unitOk h \<and> unitOk m \<and> unitOk s
      \<and> 3600 * unitValue h + 60 * unitValue m + unitValue s \<le> 2 ^ 53 \<longrightarrow>
      parseDuration (durationText h m s) =
        Inr (Fin (real (3600 * unitValue h + 60 * unitValue m + unitValue s))))
   \<and> (3600 * amount a + 60 * amount b + amount c \<le> 2 ^ 53 \<longrightarrow>
      parseDuration (durationText (map_option decimal a) (map_option decimal b) (map_option decimal c)) =
        Inr (Fin (real (3600 * amount a + 60 * amount b + amount c))))
   \<and> parseDuration ''PT1H2M3S'' = Inr (Fin 3723)
   \<and> parseDuration ''PT45S'' = Inr (Fin 45)
   \<and> parseDuration ''PT10M'' = Inr (Fin 600)
   \<and> parseDuration ''PT0S'' = Inr (Fin 0)
   \<and> parseDuration ''PT'' = Inr (Fin 0)"
proof -
  have general: "unitOk h \<and> unitOk m \<and> unitOk s
      \<and> 3600 * unitValue h + 60 * unitValue m + unitValue s \<le> 2 ^ 53 \<longrightarrow>
      parseDuration (durationText h m s) =
        Inr (Fin (real (3600 * unitValue h + 60 * unitValue m + unitValue s)))"
    using parseDuration_units by blast
  have numbers: "3600 * amount a + 60 * amount b + amount c \<le> 2 ^ 53 \<longrightarrow>
      parseDuration (durationText (map_option decimal a) (map_option decimal b) (map_option decimal c)) =
        Inr (Fin (real (3600 * amount a + 60 * amount b + amount c)))"
    using parseDuration_units[of "map_option decimal a" "map_option decimal b" "map_option decimal c"]
      unit_decimal[of a] unit_decimal[of b] unit_decimal[of c] by simp
  have e1: "parseDuration ''PT1H2M3S'' = Inr (Fin 3723)" by (simp add: parseDuration_eval)
  have e2: "parseDuration ''PT45S'' = Inr (Fin 45)" by (simp add: parseDuration_eval)
  have e3: "parseDuration ''PT10M'' = Inr (Fin 600)" by (simp add: parseDuration_eval)
  have e4: "parseDuration ''PT0S'' = Inr (Fin 0)" by (simp add: parseDuration_eval)
  have e5: "parseDuration ''PT'' = Inr (Fin 0)" by (simp add: parseDuration_eval)
  from general numbers e1 e2 e3 e4 e5 show ?thesis by blast
qed

text \<open>
  A duration with leading zeros and no minutes, and the decimal writing of 2 hours and 5
  seconds.
\<close>

theorem parseDuration_total_seconds_witness:
  "unitOk (Some ''01'') \<and> unitOk None \<and> unitOk (Some ''30'')
   \<and> 3600 * unitValue (Some ''01'') + 60 * unitValue None + unitValue (Some ''30'') = 3630
   \<and> durationText (Some ''01'') None (Some ''30'') = ''PT01H30S''
   \<and> parseDuration ''PT01H30S'' = Inr (Fin 3630)
   \<and> durationText (map_option decimal (Some 2)) (map_option decimal None) (map_option decimal (Some 5)) =
       ''PT2H5S''
   \<and> parseDuration ''PT2H5S'' = Inr (Fin 7205)"
proof -
  have ok: "unitOk (Some ''01'') \<and> unitOk None \<and> unitOk (Some ''30'')"
    by (simp add: isDigit_def)
  have shape: "durationText (Some ''01'') None (Some ''30'') = ''PT01H30S''"
    by (simp add: durationText_def)
  have total: "3600 * unitValue (Some ''01'') + 60 * unitValue None + unitValue (Some ''30'') = 3630"
    by (simp add: digitsValue_def digitValue_def)
  have bound: "3600 * unitValue (Some ''01'') + 60 * unitValue None + unitValue (Some ''30'') \<le> 2 ^ 53"
    unfolding total by simp
  from parseDuration_total_seconds[of "Some ''01''" None "Some ''30''"] ok bound
  have "parseDuration (durationText (Some ''01'') None (Some ''30'')) =
        Inr (Fin (real (3600 * unitValue (Some ''01'') + 60 * unitValue None + unitValue (Some ''30''))))"
    by blast
  then have first: "parseDuration ''PT01H30S'' = Inr (Fin 3630)"
    unfolding shape total by simp
  have shape2: "durationText (map_option decimal (Some 2)) (map_option decimal None)
                  (map_option decimal (Some 5)) = ''PT2H5S''"
    by (simp add: durationText_def decimal.simps[of 2] decimal.simps[of 5] digitChar_def)
  have bound2: "3600 * amount (Some 2) + 60 * amount None + amount (Some 5) \<le> 2 ^ 53"
    by simp
  from parseDuration_total_seconds[of _ _ _ "Some 2" None "Some 5"] bound2
  have "parseDuration (durationText (map_option decimal (Some 2)) (map_option decimal None)
                  (map_option decimal (Some 5))) =
        Inr (Fin (real (3600 * amount (Some 2) + 60 * amount None + amount (Some 5))))"
    by blast
  then have second: "parseDuration ''PT2H5S'' = Inr (Fin 7205)"
    unfolding shape2 by simp
  from ok total shape first shape2 second show ?thesis by (intro conjI) simp_all
qed

section \<open>Properties of the short-form filter\<close>

lemmas sample_eval =
  sampleVideo_def searchItem_def landscape_def portrait_def

lemmas isYoutubeShort_eval =
  isYoutubeShort_def textContent_def toLowerCase_def toLowerChar_def shortsKeywords_def
  idHasShortsPath_def isVertical_def parseDuration_eval

text \<open>
  C2, as stated, fails on a video whose duration has no \<open>PT\<close>: the API writes a duration of
  a day or more as \<open>P1DT2H\<close>. The video has \<open>contentDetails\<close> and a \<open>snippet\<close>, so the first
  rule does not answer, and the second throws instead of going on to the rules after it:
  the call returns neither true nor false.
\<close>

theorem isYoutubeShort_counterexample:
  "isYoutubeShort (sampleVideo ''live1'' ''P1DT2H'' ''Concert'' landscape) = Inl TypeError"
  by (simp add: sample_eval isYoutubeShort_eval)

text \<open>
  C2, amended. A video without \<open>contentDetails\<close> or without \<open>snippet\<close> is short, whatever
  else it holds. For a video that has both and whose duration string parses (it contains
  \<open>PT\<close>), \<open>isYoutubeShort\<close> returns true exactly when one of the rules applies: the duration
  is below 180 seconds; the lower-cased text of title, description and tags (joined by
  spaces) contains one of the six keywords; the id is a string containing \<open>/shorts/\<close>; the
  dimension is present with \<open>height > width\<close>. Otherwise it returns false.
\<close>

theorem isYoutubeShort_rules:
  "(contentDetails v = None \<or> snippet v = None \<longrightarrow> isYoutubeShort v = Inr True)
   \<and> (contentDetails v = Some cd \<and> snippet v = Some sn \<and> parseDuration (duration cd) = Inr d \<longrightarrow>
        isYoutubeShort v = Inr
          (js_lt d (Fin 180)
           \<or> (\<exists>keyword \<in> set shortsKeywords. str_includes (textContent sn) keyword)
           \<or> (\<exists>s. id_field v = Some (IdString s) \<and> str_includes s ''/shorts/'')
           \<or> (\<exists>dm h w. dimension cd = Some dm \<and> height dm = Some h \<and> width dm = Some w \<and> h > w)))"
proof (intro conjI impI)
  assume "contentDetails v = None \<or> snippet v = None"
  then show "isYoutubeShort v = Inr True"
    by (auto simp: isYoutubeShort_def split: option.splits)
next
  assume "contentDetails v = Some cd \<and> snippet v = Some sn \<and> parseDuration (duration cd) = Inr d"
  then show "isYoutubeShort v = Inr
          (js_lt d (Fin 180)
           \<or> (\<exists>keyword \<in> set shortsKeywords. str_includes (textContent sn) keyword)
           \<or> (\<exists>s. id_field v = Some (IdString s) \<and> str_includes s ''/shorts/'')
           \<or> (\<exists>dm h w. dimension cd = Some dm \<and> height dm = Some h \<and> width dm = Some w \<and> h > w))"
    by (auto simp: isYoutubeShort_def idHasShortsPath_def isVertical_def list_ex_iff
          startsWith_def split: option.splits video_id.splits)
qed

text \<open>
  The rules on the samples of the specification: 400 seconds, no marker, landscape is
  kept (by the theorem, every rule failing); 120 seconds, a \<open>#Shorts\<close> title, a portrait
  dimension and a missing \<open>contentDetails\<close> are each excluded.
\<close>

theorem isYoutubeShort_rules_witness:
  "contentDetails (sampleVideo ''v1'' ''PT6M40S'' ''Talk'' landscape) =
      Some \<lparr>duration = ''PT6M40S'', dimension = landscape\<rparr>
   \<and> parseDuration ''PT6M40S'' = Inr (Fin 400)
   \<and> isYoutubeShort (sampleVideo ''v1'' ''PT6M40S'' ''Talk'' landscape) = Inr False
   \<and> isYoutubeShort (sampleVideo ''v2'' ''PT2M'' ''Talk'' landscape) = Inr True
   \<and> isYoutubeShort (sampleVideo ''v3'' ''PT6M40S'' ''Fun #Shorts'' landscape) = Inr True
   \<and> isYoutubeShort (sampleVideo ''v4'' ''PT6M40S'' ''Talk'' portrait) = Inr True
   \<and> contentDetails (searchItem ''v5'' ''Talk'') = None
   \<and> isYoutubeShort (searchItem ''v5'' ''Talk'') = Inr True"
proof -
  let ?v = "sampleVideo ''v1'' ''PT6M40S'' ''Talk'' landscape"
  let ?cd = "\<lparr>duration = ''PT6M40S'', dimension = landscape\<rparr>"
  let ?sn = "\<lparr>title = ''Talk'', description = ''A demo'', tags = Some [''Music'', ''Live''],
              channelId = ''chan1''\<rparr>"
  have cd: "contentDetails ?v = Some ?cd" by (simp add: sample_eval)
  have sn: "snippet ?v = Some ?sn" by (simp add: sample_eval)
  have d: "parseDuration (duration ?cd) = Inr (Fin 400)" by (simp add: parseDuration_eval)
  have "isYoutubeShort ?v = Inr
          (js_lt (Fin 400) (Fin 180)
           \<or> (\<exists>keyword \<in> set shortsKeywords. str_includes (textContent ?sn) keyword)
           \<or> (\<exists>s. id_field ?v = Some (IdString s) \<and> str_includes s ''/shorts/'')
           \<or> (\<exists>dm h w. dimension ?cd = Some dm \<and> height dm = Some h \<and> width dm = Some w \<and> h > w))"
    using isYoutubeShort_rules[of ?v ?cd ?sn "Fin 400"] cd sn d by blast
  then have kept: "isYoutubeShort ?v = Inr False"
    by (simp add: sample_eval textContent_def toLowerCase_def toLowerChar_def shortsKeywords_def
          startsWith_def)
  have none: "contentDetails (searchItem ''v5'' ''Talk'') = None" by (simp add: sample_eval)
  then have search: "isYoutubeShort (searchItem ''v5'' ''Talk'') = Inr True"
    using isYoutubeShort_rules[of "searchItem ''v5'' ''Talk''"] by blast
  have s2: "isYoutubeShort (sampleVideo ''v2'' ''PT2M'' ''Talk'' landscape) = Inr True"
    by (simp add: sample_eval isYoutubeShort_eval)
  have s3: "isYoutubeShort (sampleVideo ''v3'' ''PT6M40S'' ''Fun #Shorts'' landscape) = Inr True"
    by (simp add: sample_eval isYoutubeShort_eval)
  have s4: "isYoutubeShort (sampleVideo ''v4'' ''PT6M40S'' ''Talk'' portrait) = Inr True"
    by (simp add: sample_eval isYoutubeShort_eval)
  from cd d kept s2 s3 s4 none search show ?thesis by simp
qed

section \<open>Properties of the video-ID extractor\<close>

lemmas plainURL_eval = plainURL_def startsWith_def queryPair_def Let_def

lemmas extractVideoId_eval = extractVideoId_def extractVideoId_try_def plainURL_eval

text \<open>
  C5. Whatever the URL parser and the string: when the string does not parse,
  \<open>extractVideoId\<close> returns null (the exception of the \<open>try\<close> block is caught); when the host
  contains \<open>youtube.com\<close> it returns the first \<open>v\<close> query parameter, which is null when
  absent and falsy, hence not found for every caller, when empty; otherwise, when the host
  contains \<open>youtu.be\<close>, it returns the path without its first character; for any other host
  it returns null. On the three sample URLs it gives \<open>ABC123\<close>, \<open>XYZ789\<close> and null.
\<close>

theorem extractVideoId_rules:
  "(parse u = None \<longrightarrow> extractVideoId parse u = None)
   \<and> (\<forall>e. extractVideoId_try parse u = Inl e \<longrightarrow> extractVideoId parse u = None)
   \<and> (parse u = Some urlObj \<and> str_includes (hostname urlObj) ''youtube.com'' \<longrightarrow>
        extractVideoId parse u = map_of (searchParams urlObj) ''v''
        \<and> (map_of (searchParams urlObj) ''v'' = None \<or> map_of (searchParams urlObj) ''v'' = Some []
             \<longrightarrow> \<not> truthy (extractVideoId parse u)))
   \<and> (parse u = Some urlObj \<and> \<not> str_includes (hostname urlObj) ''youtube.com''
        \<and> str_includes (hostname urlObj) ''youtu.be'' \<longrightarrow>
        extractVideoId parse u = Some (drop 1 (pathname urlObj)))
   \<and> (parse u = Some urlObj \<and> \<not> str_includes (hostname urlObj) ''youtube.com''
        \<and> \<not> str_includes (hostname urlObj) ''youtu.be'' \<longrightarrow>
        extractVideoId parse u = None)
   \<and> extractVideoId plainURL ''https://www.youtube.com/watch?v=ABC123'' = Some ''ABC123''
   \<and> extractVideoId plainURL ''https://youtu.be/XYZ789'' = Some ''XYZ789''
   \<and> extractVideoId plainURL ''https://example.com/video'' = None"
proof -
  have unparsed: "parse u = None \<longrightarrow> extractVideoId parse u = None"
    by (simp add: extractVideoId_def extractVideoId_try_def)
  have caught: "\<forall>e. extractVideoId_try parse u = Inl e \<longrightarrow> extractVideoId parse u = None"
    by (simp add: extractVideoId_def)
  have youtube: "parse u = Some urlObj \<and> str_includes (hostname urlObj) ''youtube.com'' \<longrightarrow>
        extractVideoId parse u = map_of (searchParams urlObj) ''v''
        \<and> (map_of (searchParams urlObj) ''v'' = None \<or> map_of (searchParams urlObj) ''v'' = Some []
             \<longrightarrow> \<not> truthy (extractVideoId parse u))"
    by (auto simp: extractVideoId_def extractVideoId_try_def truthy_def)
  have youtu_be: "parse u = Some urlObj \<and> \<not> str_includes (hostname urlObj) ''youtube.com''
        \<and> str_includes (hostname urlObj) ''youtu.be'' \<longrightarrow>
        extractVideoId parse u = Some (drop 1 (pathname urlObj))"
    by (simp add: extractVideoId_def extractVideoId_try_def)
  have other: "parse u = Some urlObj \<and> \<not> str_includes (hostname urlObj) ''youtube.com''
        \<and> \<not> str_includes (hostname urlObj) ''youtu.be'' \<longrightarrow>
        extractVideoId parse u = None"
    by (simp add: extractVideoId_def extractVideoId_try_def)
  have e1: "extractVideoId plainURL ''https://www.youtube.com/watch?v=ABC123'' = Some ''ABC123''"
    by (simp add: extractVideoId_eval)
  have e2: "extractVideoId plainURL ''https://youtu.be/XYZ789'' = Some ''XYZ789''"
    by (simp add: extractVideoId_eval)
  have e3: "extractVideoId plainURL ''https://example.com/video'' = None"
    by (simp add: extractVideoId_eval)
  from unparsed caught youtube youtu_be other e1 e2 e3 show ?thesis by blast
qed

text \<open>
  The rules at work: a string that is no URL, a watch URL with an empty \<open>v\<close>, a short link
  with a query behind the path, and a host that is neither.
\<close>

theorem extractVideoId_rules_witness:
  "plainURL ''not a url'' = None
   \<and> extractVideoId_try plainURL ''not a url'' = Inl TypeError
   \<and> extractVideoId plainURL ''not a url'' = None
   \<and> plainURL ''https://www.youtube.com/watch?v='' =
        Some \<lparr>hostname = ''www.youtube.com'', pathname = ''/watch'', searchParams = [(''v'', [])]\<rparr>
   \<and> extractVideoId plainURL ''https://www.youtube.com/watch?v='' = Some []
   \<and> \<not> truthy (extractVideoId plainURL ''https://www.youtube.com/watch?v='')
   \<and> plainURL ''https://youtu.be/XYZ789?t=42'' =
        Some \<lparr>hostname = ''youtu.be'', pathname = ''/XYZ789'', searchParams = [(''t'', ''42'')]\<rparr>
   \<and> extractVideoId plainURL ''https://youtu.be/XYZ789?t=42'' = Some ''XYZ789''
   \<and> plainURL ''https://vimeo.com/12345'' =
        Some \<lparr>hostname = ''vimeo.com'', pathname = ''/12345'', searchParams = []\<rparr>
   \<and> extractVideoId plainURL ''https://vimeo.com/12345'' = None"
proof -
  let ?w = "\<lparr>hostname = ''www.youtube.com'', pathname = ''/watch'', searchParams = [(''v'', [])]\<rparr>"
  let ?s = "\<lparr>hostname = ''youtu.be'', pathname = ''/XYZ789'', searchParams = [(''t'', ''42'')]\<rparr>"
  let ?o = "\<lparr>hostname = ''vimeo.com'', pathname = ''/12345'', searchParams = []\<rparr>"
  have p0: "plainURL ''not a url'' = None" by (simp add: plainURL_eval)
  have p1: "plainURL ''https://www.youtube.com/watch?v='' = Some ?w" by (simp add: plainURL_eval)
  have p2: "plainURL ''https://youtu.be/XYZ789?t=42'' = Some ?s" by (simp add: plainURL_eval)
  have p3: "plainURL ''https://vimeo.com/12345'' = Some ?o" by (simp add: plainURL_eval)
  have h1: "str_includes (hostname ?w) ''youtube.com''" by (simp add: startsWith_def)
  have h2: "\<not> str_includes (hostname ?s) ''youtube.com'' \<and> str_includes (hostname ?s) ''youtu.be''"
    by (simp add: startsWith_def)
  have h3: "\<not> str_includes (hostname ?o) ''youtube.com'' \<and> \<not> str_includes (hostname ?o) ''youtu.be''"
    by (simp add: startsWith_def)
  have t0: "extractVideoId_try plainURL ''not a url'' = Inl TypeError"
    by (simp add: extractVideoId_try_def p0)
  have "extractVideoId plainURL ''not a url'' = None"
    using extractVideoId_rules[of plainURL "''not a url''"] p0 by blast
  moreover have "extractVideoId plainURL ''not a url'' = None"
    using extractVideoId_rules[of plainURL "''not a url''"] t0 by blast
  ultimately have r0: "extractVideoId plainURL ''not a url'' = None"
    by simp
  have "extractVideoId plainURL ''https://www.youtube.com/watch?v='' = map_of (searchParams ?w) ''v''
        \<and> (map_of (searchParams ?w) ''v'' = None \<or> map_of (searchParams ?w) ''v'' = Some []
             \<longrightarrow> \<not> truthy (extractVideoId plainURL ''https://www.youtube.com/watch?v=''))"
    using extractVideoId_rules[of plainURL "''https://www.youtube.com/watch?v=''" ?w] p1 h1 by blast
  then have r1: "extractVideoId plainURL ''https://www.youtube.com/watch?v='' = Some []
            \<and> \<not> truthy (extractVideoId plainURL ''https://www.youtube.com/watch?v='')"
    by (simp add: truthy_def)
  have "extractVideoId plainURL ''https://youtu.be/XYZ789?t=42'' = Some (drop 1 (pathname ?s))"
    using extractVideoId_rules[of plainURL "''https://youtu.be/XYZ789?t=42''" ?s] p2 h2 by blast
  then have r2: "extractVideoId plainURL ''https://youtu.be/XYZ789?t=42'' = Some ''XYZ789''"
    by simp
  have r3: "extractVideoId plainURL ''https://vimeo.com/12345'' = None"
    using extractVideoId_rules[of plainURL "''https://vimeo.com/12345''" ?o] p3 h3 by blast
  from p0 t0 p1 p2 p3 r0 r1 r2 r3 show ?thesis by blast
qed

section \<open>Properties of the orchestrator\<close>

lemma processLoop_append:
  "processLoop env k pt pre results w = (Inr acc, w0) \<Longrightarrow>
   processLoop env k pt (pre @ rest) results w = processLoop env k pt rest acc w0"
proof (induction pre arbitrary: results w)
  case Nil
  then show ?case by simp
next
  case (Cons u pre)
  then show ?case
    by (auto split: option.splits prod.splits sum.splits if_splits)
qed

lemma getRelatedVideos_errors:
  "getRelatedVideos env vd k pt w = (Inl e, w') \<Longrightarrow> e = NoRelatedVideosFound \<or> (\<exists>c. e = ApiError c)"
  by (auto simp: getRelatedVideos_def Let_def split: prod.splits sum.splits option.splits list.splits)

lemma processLoop_errors:
  "processLoop env k pt urls results w = (Inl e, w') \<Longrightarrow> e = NoRelatedVideosFound \<or> (\<exists>c. e = ApiError c)"
proof (induction urls arbitrary: results w)
  case Nil
  then show ?case by simp
next
  case (Cons u urls)
  then show ?case
    by (auto split: option.splits prod.splits sum.splits if_splits dest: getRelatedVideos_errors)
qed

lemma parseDuration_errors: "parseDuration d = Inl e \<Longrightarrow> e = TypeError"
  by (auto simp: parseDuration_def split: option.splits prod.splits)

lemma isYoutubeShort_errors: "isYoutubeShort v = Inl e \<Longrightarrow> e = TypeError"
  by (auto simp: isYoutubeShort_def split: option.splits sum.splits if_splits dest: parseDuration_errors)

lemma filterNotShort_errors: "filterNotShort vs = Inl e \<Longrightarrow> e = TypeError"
  by (induction vs) (auto split: sum.splits dest: isYoutubeShort_errors)

lemma filterNotShort_kept:
  "filterNotShort vs = Inr kept \<Longrightarrow> kept = filter (\<lambda>v. isYoutubeShort v = Inr False) vs"
  by (induction vs arbitrary: kept) (auto split: sum.splits if_splits)

lemma filterNotShort_all_short:
  "\<forall>v\<in>set vs. isYoutubeShort v = Inr True \<Longrightarrow> filterNotShort vs = Inr []"
  by (induction vs) auto

text \<open>The shape of a successful run.\<close>

lemma processVideoUrls_Inr:
  assumes "processVideoUrls env urls apiKey pageToken w = (Inr page, w')"
  shows "\<exists>pool kept. processLoop env apiKey pageToken urls [] w = (Inr pool, w') \<and> pool \<noteq> []
           \<and> filterNotShort pool = Inr kept
           \<and> page = \<lparr>items = take MAX_RESULTS kept, nextPageToken = pageToken\<rparr>"
proof -
  obtain r w1 where loop: "processLoop env apiKey pageToken urls [] w = (r, w1)"
    by (cases "processLoop env apiKey pageToken urls [] w")
  show ?thesis
  proof (cases r)
    case (Inl e)
    with assms loop show ?thesis by (simp add: processVideoUrls_def)
  next
    case (Inr pool)
    show ?thesis
    proof (cases "pool = []")
      case True
      with assms loop Inr show ?thesis by (simp add: processVideoUrls_def)
    next
      case False
      show ?thesis
      proof (cases "filterNotShort pool")
        case (Inl e)
        with assms loop Inr False show ?thesis by (simp add: processVideoUrls_def)
      next
        case kept: (Inr kept)
        with assms loop Inr False show ?thesis by (simp add: processVideoUrls_def)
      qed
    qed
  qed
qed

lemmas sampleEnv_eval =
  sampleEnv_def getVideoDetails_def getRelatedVideos_def relatedKey_def truthy_def
  extractVideoId_eval sample_eval

lemma filterNotShort_total:
  "list_all (\<lambda>v. \<exists>short. isYoutubeShort v = Inr short) vs \<Longrightarrow>
   filterNotShort vs = Inr (filter (\<lambda>v. isYoutubeShort v = Inr False) vs)"
  by (induction vs) auto

text \<open>
  C1. Whenever \<open>processVideoUrls\<close> returns a page, the loop over the sources has gathered a
  pool, and the items of the page are the first 15 (\<open>MAX_RESULTS\<close>) of the videos of the pool
  that \<open>isYoutubeShort\<close> answers false for, in the order of the pool: every item is not
  short, and there are at most 15. And it does return that page whenever the pool is not
  empty and \<open>isYoutubeShort\<close> answers for each of its videos.
\<close>

theorem processVideoUrls_page:
  "(processVideoUrls env urls apiKey pageToken w = (Inr page, w') \<longrightarrow>
      (\<exists>pool. processLoop env apiKey pageToken urls [] w = (Inr pool, w')
         \<and> items page = take MAX_RESULTS (filter (\<lambda>v. isYoutubeShort v = Inr False) pool))
      \<and> (\<forall>v \<in> set (items page). isYoutubeShort v = Inr False)
      \<and> length (items page) \<le> 15)
   \<and> (processLoop env apiKey pageToken urls [] w = (Inr gathered, w0) \<and> gathered \<noteq> []
        \<and> list_all (\<lambda>v. \<exists>short. isYoutubeShort v = Inr short) gathered \<longrightarrow>
      processVideoUrls env urls apiKey pageToken w =
        (Inr \<lparr>items = take 15 (filter (\<lambda>v. isYoutubeShort v = Inr False) gathered),
              nextPageToken = pageToken\<rparr>, w0))
   \<and> MAX_RESULTS = 15"
proof (intro conjI impI)
  assume run: "processVideoUrls env urls apiKey pageToken w = (Inr page, w')"
  from processVideoUrls_Inr[OF run] obtain pool kept where
    loop: "processLoop env apiKey pageToken urls [] w = (Inr pool, w')" and
    kept: "filterNotShort pool = Inr kept" and
    page: "page = \<lparr>items = take MAX_RESULTS kept, nextPageToken = pageToken\<rparr>"
    by blast
  have items: "items page = take MAX_RESULTS (filter (\<lambda>v. isYoutubeShort v = Inr False) pool)"
    using filterNotShort_kept[OF kept] page by simp
  from loop items show "\<exists>pool. processLoop env apiKey pageToken urls [] w = (Inr pool, w')
      \<and> items page = take MAX_RESULTS (filter (\<lambda>v. isYoutubeShort v = Inr False) pool)"
    by blast
  have "set (items page) \<subseteq> set (filter (\<lambda>v. isYoutubeShort v = Inr False) pool)"
    unfolding items by (rule set_take_subset)
  then show "\<forall>v \<in> set (items page). isYoutubeShort v = Inr False"
    by auto
  show "length (items page) \<le> 15"
    unfolding items by (simp add: MAX_RESULTS_def)
next
  assume "processLoop env apiKey pageToken urls [] w = (Inr gathered, w0) \<and> gathered \<noteq> []
        \<and> list_all (\<lambda>v. \<exists>short. isYoutubeShort v = Inr short) gathered"
  then show "processVideoUrls env urls apiKey pageToken w =
        (Inr \<lparr>items = take 15 (filter (\<lambda>v. isYoutubeShort v = Inr False) gathered),
              nextPageToken = pageToken\<rparr>, w0)"
    using filterNotShort_total[of gathered]
    by (simp add: processVideoUrls_def MAX_RESULTS_def)
next
  show "MAX_RESULTS = 15" by (simp add: MAX_RESULTS_def)
qed

text \<open>
  On the sample request each of the two sources brings ten long videos and ten clips: the
  page holds the ten long videos of the first source and the first five of the second.
  A source that brings two search items, both short for the filter, gives a page without
  items.
\<close>

theorem processVideoUrls_page_witness:
  "processVideoUrls sampleEnv sampleUrls ''KEY'' None 0 = (Inr samplePage, 5)
   \<and> length (items samplePage) = 15
   \<and> list_all (\<lambda>v. isYoutubeShort v = Inr False) (items samplePage)
   \<and> processLoop sampleEnv ''KEY'' None [''https://youtu.be/search''] [] 0 =
       (Inr [searchItem ''r1'' ''One'', searchItem ''r2'' ''Two''], 2)
   \<and> list_all (\<lambda>v. \<exists>short. isYoutubeShort v = Inr short)
        [searchItem ''r1'' ''One'', searchItem ''r2'' ''Two'']
   \<and> processVideoUrls sampleEnv [''https://youtu.be/search''] ''KEY'' None 0 =
       (Inr \<lparr>items = [], nextPageToken = None\<rparr>, 2)"
proof -
  let ?pool = "[searchItem ''r1'' ''One'', searchItem ''r2'' ''Two'']"
  have run: "processVideoUrls sampleEnv sampleUrls ''KEY'' None 0 = (Inr samplePage, 5)"
    by code_simp
  from processVideoUrls_page[of sampleEnv sampleUrls "''KEY''" None 0 samplePage 5] run
  have "\<forall>v \<in> set (items samplePage). isYoutubeShort v = Inr False"
    by blast
  then have notshort: "list_all (\<lambda>v. isYoutubeShort v = Inr False) (items samplePage)"
    unfolding list_all_iff .
  have len: "length (items samplePage) = 15"
    by (simp add: samplePage_def)
  have loop: "processLoop sampleEnv ''KEY'' None [''https://youtu.be/search''] [] 0 = (Inr ?pool, 2)"
    by (simp add: sampleEnv_eval)
  have short: "isYoutubeShort (searchItem ''r1'' ''One'') = Inr True"
    "isYoutubeShort (searchItem ''r2'' ''Two'') = Inr True"
    by (simp_all add: isYoutubeShort_def sample_eval)
  then have answers: "list_all (\<lambda>v. \<exists>short. isYoutubeShort v = Inr short) ?pool"
    by auto
  have nonempty: "?pool \<noteq> []" by simp
  from processVideoUrls_page[of sampleEnv "[''https://youtu.be/search'']" "''KEY''" None 0 _ _ ?pool 2]
    loop nonempty answers
  have "processVideoUrls sampleEnv [''https://youtu.be/search''] ''KEY'' None 0 =
       (Inr \<lparr>items = take 15 (filter (\<lambda>v. isYoutubeShort v = Inr False) ?pool),
             nextPageToken = None\<rparr>, 2)"
    by blast
  then have empty: "processVideoUrls sampleEnv [''https://youtu.be/search''] ''KEY'' None 0 =
       (Inr \<lparr>items = [], nextPageToken = None\<rparr>, 2)"
    by (simp add: short)
  from run len notshort loop answers empty show ?thesis by (intro conjI)
qed

text \<open>
  C7, as stated, fails when the pool is not empty and the filter leaves nothing: the
  sample source brings two plain search items, which have no \<open>contentDetails\<close> and are
  short for the filter, and \<open>processVideoUrls\<close> returns a page without items, not the error.
\<close>

theorem processVideoUrls_empty_page_counterexample:
  "processVideoUrls sampleEnv [''https://youtu.be/search''] ''KEY'' None 0 =
     (Inr \<lparr>items = [], nextPageToken = None\<rparr>, 2)"
  by (simp add: processVideoUrls_def sampleEnv_eval isYoutubeShort_def MAX_RESULTS_def)

text \<open>
  C7, amended. \<open>processVideoUrls\<close> fails with \<open>No recommendations found\<close> exactly when the
  loop over the sources ends, without a failure, on an empty pool, before any filtering.
  When the pool is not empty and every video of it is short, it returns a page without
  items; \<open>handleUrlInput\<close> answers a page without items with status 404 and the message
  \<open>No recommendations found. Try different videos.\<close>
\<close>

theorem processVideoUrls_no_recommendations:
  "(fst (processVideoUrls env urls apiKey pageToken w) = Inl NoRecommendationsFound
      \<longleftrightarrow> fst (processLoop env apiKey pageToken urls [] w) = Inr [])
   \<and> (processLoop env apiKey pageToken urls [] w = (Inr pool, w') \<and> pool \<noteq> []
        \<and> list_all (\<lambda>v. isYoutubeShort v = Inr True) pool \<longrightarrow>
        processVideoUrls env urls apiKey pageToken w =
          (Inr \<lparr>items = [], nextPageToken = pageToken\<rparr>, w'))
   \<and> (acceptedUrls env urls \<and> processVideoUrls env urls apiKey pageToken w = (Inr page, w')
        \<and> items page = [] \<longrightarrow>
        handleUrlInput env (Some urls) pageToken apiKey w =
          (HttpError 404 ''No recommendations found. Try different videos.'', w'))"
proof -
  obtain r w1 where loop: "processLoop env apiKey pageToken urls [] w = (r, w1)"
    by (cases "processLoop env apiKey pageToken urls [] w")
  have exact: "fst (processVideoUrls env urls apiKey pageToken w) = Inl NoRecommendationsFound
      \<longleftrightarrow> fst (processLoop env apiKey pageToken urls [] w) = Inr []"
  proof (cases r)
    case (Inl e)
    with loop processLoop_errors[of env apiKey pageToken urls "[]" w e w1] show ?thesis
      by (auto simp: processVideoUrls_def)
  next
    case (Inr pool)
    show ?thesis
    proof (cases "filterNotShort pool")
      case (Inl e)
      with filterNotShort_errors[of pool e] loop Inr show ?thesis
        by (auto simp: processVideoUrls_def)
    next
      case inner: (Inr kept)
      with loop Inr show ?thesis
        by (auto simp: processVideoUrls_def)
    qed
  qed
  have filtered: "processLoop env apiKey pageToken urls [] w = (Inr pool, w') \<and> pool \<noteq> []
        \<and> list_all (\<lambda>v. isYoutubeShort v = Inr True) pool \<longrightarrow>
        processVideoUrls env urls apiKey pageToken w =
          (Inr \<lparr>items = [], nextPageToken = pageToken\<rparr>, w')"
    using filterNotShort_all_short[of pool]
    by (auto simp: processVideoUrls_def list_all_iff)
  have handler: "acceptedUrls env urls \<and> processVideoUrls env urls apiKey pageToken w = (Inr page, w')
        \<and> items page = [] \<longrightarrow>
        handleUrlInput env (Some urls) pageToken apiKey w =
          (HttpError 404 ''No recommendations found. Try different videos.'', w')"
    by (auto simp: handleUrlInput_def acceptedUrls_def list_ex_iff filter_empty_conv)
  from exact filtered handler show ?thesis by blast
qed

text \<open>
  The three parts on the sample world: an unknown video alone gives the error; a source
  with search items only gives a page without items, and the handler answers 404.
\<close>

theorem processVideoUrls_no_recommendations_witness:
  "fst (processLoop sampleEnv ''KEY'' None [''https://youtu.be/gone''] [] 0) = Inr []
   \<and> fst (processVideoUrls sampleEnv [''https://youtu.be/gone''] ''KEY'' None 0) = Inl NoRecommendationsFound
   \<and> processLoop sampleEnv ''KEY'' None [''https://youtu.be/search''] [] 0 =
       (Inr [searchItem ''r1'' ''One'', searchItem ''r2'' ''Two''], 2)
   \<and> list_all (\<lambda>v. isYoutubeShort v = Inr True) [searchItem ''r1'' ''One'', searchItem ''r2'' ''Two'']
   \<and> acceptedUrls sampleEnv [''https://youtu.be/search'']
   \<and> processVideoUrls sampleEnv [''https://youtu.be/search''] ''KEY'' None 0 =
       (Inr \<lparr>items = [], nextPageToken = None\<rparr>, 2)
   \<and> handleUrlInput sampleEnv (Some [''https://youtu.be/search'']) None ''KEY'' 0 =
       (HttpError 404 ''No recommendations found. Try different videos.'', 2)"
proof -
  let ?pool = "[searchItem ''r1'' ''One'', searchItem ''r2'' ''Two'']"
  let ?page = "\<lparr>items = [], nextPageToken = None\<rparr>"
  note thm_gone = processVideoUrls_no_recommendations
    [of sampleEnv "[''https://youtu.be/gone'']" "''KEY''" None 0]
  note thm_search = processVideoUrls_no_recommendations
    [of sampleEnv "[''https://youtu.be/search'']" "''KEY''" None 0 ?pool 2 ?page]
  have gone: "fst (processLoop sampleEnv ''KEY'' None [''https://youtu.be/gone''] [] 0) = Inr []"
    by (simp add: sampleEnv_eval)
  with thm_gone
  have err: "fst (processVideoUrls sampleEnv [''https://youtu.be/gone''] ''KEY'' None 0) = Inl NoRecommendationsFound"
    by blast
  have loop: "processLoop sampleEnv ''KEY'' None [''https://youtu.be/search''] [] 0 = (Inr ?pool, 2)"
    by (simp add: sampleEnv_eval)
  have short: "list_all (\<lambda>v. isYoutubeShort v = Inr True) ?pool"
    by (simp add: isYoutubeShort_def sample_eval)
  have nonempty: "?pool \<noteq> []" by simp
  from thm_search loop short nonempty
  have page: "processVideoUrls sampleEnv [''https://youtu.be/search''] ''KEY'' None 0 = (Inr ?page, 2)"
    by blast
  have acc: "acceptedUrls sampleEnv [''https://youtu.be/search'']"
    by (simp add: acceptedUrls_def sampleEnv_eval)
  have "items ?page = []" by simp
  with thm_search acc page
  have "handleUrlInput sampleEnv (Some [''https://youtu.be/search'']) None ''KEY'' 0 =
       (HttpError 404 ''No recommendations found. Try different videos.'', 2)"
    by blast
  with gone err loop short acc page show ?thesis by blast
qed

text \<open>
  C8. Take a source \<open>u\<close> of the list that the loop reaches (the sources before it were
  processed without an abort) and whose id resolves. If \<open>videos.list\<close> fails for it, or has
  no item, \<open>getVideoDetails\<close> returns null and the loop goes on with the sources after
  \<open>u\<close>, the results unchanged. If the details are found and \<open>getRelatedVideos\<close> fails,
  \<open>processVideoUrls\<close> fails with that very error, whatever the sources after \<open>u\<close>; and
  \<open>getRelatedVideos\<close> fails whenever \<open>search.list\<close> does.
\<close>

theorem processVideoUrls_failure_policy:
  "processLoop env apiKey pageToken pre [] w = (Inr acc, w0)
   \<and> extractVideoId (newURL env) u = Some videoId \<and> videoId \<noteq> [] \<longrightarrow>
     (detailsMissing (fst (videos_list env videoId apiKey w0)) \<longrightarrow>
        getVideoDetails env videoId apiKey w0 = (None, snd (videos_list env videoId apiKey w0))
        \<and> processLoop env apiKey pageToken (pre @ u # post) [] w =
            processLoop env apiKey pageToken post acc (snd (videos_list env videoId apiKey w0)))
     \<and> (getVideoDetails env videoId apiKey w0 = (Some videoDetails, w1)
          \<and> getRelatedVideos env videoDetails apiKey pageToken w1 = (Inl e, w2) \<longrightarrow>
        processVideoUrls env (pre @ u # post) apiKey pageToken w = (Inl e, w2))
     \<and> (search_list env \<lparr>relatedToVideoId = relatedKey videoDetails,
                           pageToken_param = (if truthy pageToken then pageToken else None)\<rparr> w1
            = (Inl code, w2) \<longrightarrow>
        getRelatedVideos env videoDetails apiKey pageToken w1 = (Inl (ApiError code), w2))"
proof (intro impI)
  assume a: "processLoop env apiKey pageToken pre [] w = (Inr acc, w0)
   \<and> extractVideoId (newURL env) u = Some videoId \<and> videoId \<noteq> []"
  then have reach: "processLoop env apiKey pageToken pre [] w = (Inr acc, w0)"
    and ident: "extractVideoId (newURL env) u = Some videoId" and nonempty: "videoId \<noteq> []"
    by simp_all
  note cont = processLoop_append[OF reach, of "u # post"]
  have swallowed: "detailsMissing (fst (videos_list env videoId apiKey w0)) \<longrightarrow>
        getVideoDetails env videoId apiKey w0 = (None, snd (videos_list env videoId apiKey w0))
        \<and> processLoop env apiKey pageToken (pre @ u # post) [] w =
            processLoop env apiKey pageToken post acc (snd (videos_list env videoId apiKey w0))"
  proof
    assume miss: "detailsMissing (fst (videos_list env videoId apiKey w0))"
    then have d: "getVideoDetails env videoId apiKey w0 = (None, snd (videos_list env videoId apiKey w0))"
      by (cases "videos_list env videoId apiKey w0")
         (auto simp: getVideoDetails_def detailsMissing_def split: sum.splits option.splits list.splits)
    with cont ident nonempty show "getVideoDetails env videoId apiKey w0 = (None, snd (videos_list env videoId apiKey w0))
        \<and> processLoop env apiKey pageToken (pre @ u # post) [] w =
            processLoop env apiKey pageToken post acc (snd (videos_list env videoId apiKey w0))"
      by simp
  qed
  have aborted: "getVideoDetails env videoId apiKey w0 = (Some videoDetails, w1)
          \<and> getRelatedVideos env videoDetails apiKey pageToken w1 = (Inl e, w2) \<longrightarrow>
        processVideoUrls env (pre @ u # post) apiKey pageToken w = (Inl e, w2)"
  proof
    assume "getVideoDetails env videoId apiKey w0 = (Some videoDetails, w1)
          \<and> getRelatedVideos env videoDetails apiKey pageToken w1 = (Inl e, w2)"
    with cont ident nonempty
    have "processLoop env apiKey pageToken (pre @ u # post) [] w = (Inl e, w2)"
      by simp
    then show "processVideoUrls env (pre @ u # post) apiKey pageToken w = (Inl e, w2)"
      by (simp add: processVideoUrls_def)
  qed
  have rethrown: "search_list env \<lparr>relatedToVideoId = relatedKey videoDetails,
                           pageToken_param = (if truthy pageToken then pageToken else None)\<rparr> w1
            = (Inl code, w2) \<longrightarrow>
        getRelatedVideos env videoDetails apiKey pageToken w1 = (Inl (ApiError code), w2)"
    by (simp add: getRelatedVideos_def Let_def)
  from swallowed aborted rethrown
  show "(detailsMissing (fst (videos_list env videoId apiKey w0)) \<longrightarrow>
        getVideoDetails env videoId apiKey w0 = (None, snd (videos_list env videoId apiKey w0))
        \<and> processLoop env apiKey pageToken (pre @ u # post) [] w =
            processLoop env apiKey pageToken post acc (snd (videos_list env videoId apiKey w0)))
     \<and> (getVideoDetails env videoId apiKey w0 = (Some videoDetails, w1)
          \<and> getRelatedVideos env videoDetails apiKey pageToken w1 = (Inl e, w2) \<longrightarrow>
        processVideoUrls env (pre @ u # post) apiKey pageToken w = (Inl e, w2))
     \<and> (search_list env \<lparr>relatedToVideoId = relatedKey videoDetails,
                           pageToken_param = (if truthy pageToken then pageToken else None)\<rparr> w1
            = (Inl code, w2) \<longrightarrow>
        getRelatedVideos env videoDetails apiKey pageToken w1 = (Inl (ApiError code), w2))"
    by blast
qed

text \<open>
  On the sample world, after a first source that brings two search items: the unknown
  video \<open>gone\<close> and the rejected \<open>denied\<close> are skipped, and the loop goes on with the last
  source; the source \<open>quota\<close>, whose search is rejected with code 403, aborts the request.
\<close>

theorem processVideoUrls_failure_policy_witness:
  "processLoop sampleEnv ''KEY'' None [''https://youtu.be/search''] [] 0 =
      (Inr [searchItem ''r1'' ''One'', searchItem ''r2'' ''Two''], 2)
   \<and> extractVideoId (newURL sampleEnv) ''https://youtu.be/gone'' = Some ''gone''
   \<and> detailsMissing (fst (videos_list sampleEnv ''gone'' ''KEY'' 2))
   \<and> processLoop sampleEnv ''KEY'' None
        ([''https://youtu.be/search''] @ ''https://youtu.be/gone'' # [''https://youtu.be/search'']) [] 0 =
      processLoop sampleEnv ''KEY'' None [''https://youtu.be/search'']
        [searchItem ''r1'' ''One'', searchItem ''r2'' ''Two''] 3
   \<and> extractVideoId (newURL sampleEnv) ''https://youtu.be/denied'' = Some ''denied''
   \<and> detailsMissing (fst (videos_list sampleEnv ''denied'' ''KEY'' 2))
   \<and> processLoop sampleEnv ''KEY'' None
        ([''https://youtu.be/search''] @ ''https://youtu.be/denied'' # [''https://youtu.be/search'']) [] 0 =
      processLoop sampleEnv ''KEY'' None [''https://youtu.be/search'']
        [searchItem ''r1'' ''One'', searchItem ''r2'' ''Two''] 3
   \<and> extractVideoId (newURL sampleEnv) ''https://youtu.be/quota'' = Some ''quota''
   \<and> getVideoDetails sampleEnv ''quota'' ''KEY'' 2 =
        (Some (sampleVideo ''quota'' ''PT10M'' ''Source'' landscape), 3)
   \<and> getRelatedVideos sampleEnv (sampleVideo ''quota'' ''PT10M'' ''Source'' landscape) ''KEY'' None 3 =
        (Inl (ApiError (Some 403)), 4)
   \<and> processVideoUrls sampleEnv
        ([''https://youtu.be/search''] @ ''https://youtu.be/quota'' # [''https://youtu.be/search''])
        ''KEY'' None 0 = (Inl (ApiError (Some 403)), 4)"
proof -
  let ?pre = "[''https://youtu.be/search'']"
  let ?acc = "[searchItem ''r1'' ''One'', searchItem ''r2'' ''Two'']"
  let ?vd = "sampleVideo ''quota'' ''PT10M'' ''Source'' landscape"
  have reach: "processLoop sampleEnv ''KEY'' None ?pre [] 0 = (Inr ?acc, 2)"
    by (simp add: sampleEnv_eval)
  have i1: "extractVideoId (newURL sampleEnv) ''https://youtu.be/gone'' = Some ''gone''"
    by (simp add: sampleEnv_eval)
  have i2: "extractVideoId (newURL sampleEnv) ''https://youtu.be/denied'' = Some ''denied''"
    by (simp add: sampleEnv_eval)
  have i3: "extractVideoId (newURL sampleEnv) ''https://youtu.be/quota'' = Some ''quota''"
    by (simp add: sampleEnv_eval)
  have m1: "detailsMissing (fst (videos_list sampleEnv ''gone'' ''KEY'' 2))"
    by (simp add: sampleEnv_def detailsMissing_def)
  have m2: "detailsMissing (fst (videos_list sampleEnv ''denied'' ''KEY'' 2))"
    by (simp add: sampleEnv_def detailsMissing_def)
  have w1: "snd (videos_list sampleEnv ''gone'' ''KEY'' 2) = 3"
    by (simp add: sampleEnv_def)
  have w2: "snd (videos_list sampleEnv ''denied'' ''KEY'' 2) = 3"
    by (simp add: sampleEnv_def)
  have d3: "getVideoDetails sampleEnv ''quota'' ''KEY'' 2 = (Some ?vd, 3)"
    by (simp add: sampleEnv_eval)
  have rejected: "search_list sampleEnv
        \<lparr>relatedToVideoId = relatedKey ?vd,
         pageToken_param = (if truthy None then None else None)\<rparr> 3 = (Inl (Some 403), 4)"
    by (simp add: sampleEnv_def relatedKey_def sample_eval)
  have n: "''gone'' \<noteq> []" "''denied'' \<noteq> []" "''quota'' \<noteq> []" by simp_all
  from processVideoUrls_failure_policy
    [of sampleEnv "''KEY''" None ?pre 0 ?acc 2 "''https://youtu.be/gone''" "''gone''" ?pre]
    reach i1 n(1) m1
  have "processLoop sampleEnv ''KEY'' None (?pre @ ''https://youtu.be/gone'' # ?pre) [] 0 =
      processLoop sampleEnv ''KEY'' None ?pre ?acc (snd (videos_list sampleEnv ''gone'' ''KEY'' 2))"
    by blast
  then have s1: "processLoop sampleEnv ''KEY'' None (?pre @ ''https://youtu.be/gone'' # ?pre) [] 0 =
      processLoop sampleEnv ''KEY'' None ?pre ?acc 3"
    unfolding w1 .
  from processVideoUrls_failure_policy
    [of sampleEnv "''KEY''" None ?pre 0 ?acc 2 "''https://youtu.be/denied''" "''denied''" ?pre]
    reach i2 n(2) m2
  have "processLoop sampleEnv ''KEY'' None (?pre @ ''https://youtu.be/denied'' # ?pre) [] 0 =
      processLoop sampleEnv ''KEY'' None ?pre ?acc (snd (videos_list sampleEnv ''denied'' ''KEY'' 2))"
    by blast
  then have s2: "processLoop sampleEnv ''KEY'' None (?pre @ ''https://youtu.be/denied'' # ?pre) [] 0 =
      processLoop sampleEnv ''KEY'' None ?pre ?acc 3"
    unfolding w2 .
  from processVideoUrls_failure_policy
    [of sampleEnv "''KEY''" None ?pre 0 ?acc 2 "''https://youtu.be/quota''" "''quota''" ?pre
        ?vd 3 "ApiError (Some 403)" 4 "Some 403"]
    reach i3 n(3) rejected
  have r3: "getRelatedVideos sampleEnv ?vd ''KEY'' None 3 = (Inl (ApiError (Some 403)), 4)"
    by blast
  from processVideoUrls_failure_policy
    [of sampleEnv "''KEY''" None ?pre 0 ?acc 2 "''https://youtu.be/quota''" "''quota''" ?pre
        ?vd 3 "ApiError (Some 403)" 4]
    reach i3 n(3) d3 r3
  have s3: "processVideoUrls sampleEnv (?pre @ ''https://youtu.be/quota'' # ?pre) ''KEY'' None 0 =
      (Inl (ApiError (Some 403)), 4)"
    by blast
  from reach i1 m1 s1 i2 m2 s2 i3 d3 r3 s3 show ?thesis
    by (intro conjI)
qed

lemma getRelatedVideos_retoken:
  "getRelatedVideos (retoken f env) vd k pt w =
     (case getRelatedVideos env vd k pt w of
        (Inl e, w') \<Rightarrow> (Inl e, w')
      | (Inr r, w') \<Rightarrow>
          (Inr (r\<lparr>rel_nextPageToken :=
                    f \<lparr>relatedToVideoId = relatedKey vd,
                       pageToken_param = (if truthy pt then pt else None)\<rparr> w\<rparr>), w'))"
  by (auto simp: getRelatedVideos_def retoken_def Let_def
        split: prod.splits sum.splits option.splits list.splits)

lemma getVideoDetails_retoken:
  "getVideoDetails (retoken f env) videoId k w = getVideoDetails env videoId k w"
  by (simp add: getVideoDetails_def retoken_def)

lemma processLoop_retoken:
  "processLoop (retoken f env) k pt urls results w = processLoop env k pt urls results w"
proof (induction urls arbitrary: results w)
  case Nil
  show ?case by simp
next
  case (Cons u urls)
  have nu: "newURL (retoken f env) = newURL env" by (simp add: retoken_def)
  show ?case
    by (auto simp: nu getVideoDetails_retoken getRelatedVideos_retoken Cons
          split: option.splits prod.splits sum.splits)
qed

text \<open>
  C10. The \<open>nextPageToken\<close> of a page that \<open>processVideoUrls\<close> returns is the \<open>pageToken\<close> it
  was called with (null when none was given), so a caller that sends the returned token
  back makes the same call again; and the outcome of \<open>processVideoUrls\<close> is the same
  whatever \<open>nextPageToken\<close> the answers of \<open>search.list\<close> carry.
\<close>

theorem processVideoUrls_nextPageToken:
  "(processVideoUrls env urls apiKey pageToken w = (Inr page, w') \<longrightarrow>
      nextPageToken page = pageToken
      \<and> processVideoUrls env urls apiKey (nextPageToken page) w'' =
          processVideoUrls env urls apiKey pageToken w'')
   \<and> processVideoUrls (retoken f env) urls apiKey pageToken w =
       processVideoUrls env urls apiKey pageToken w"
proof -
  have same: "processVideoUrls env urls apiKey pageToken w = (Inr page, w') \<longrightarrow>
      nextPageToken page = pageToken"
    using processVideoUrls_Inr[of env urls apiKey pageToken w page w'] by auto
  have indep: "processVideoUrls (retoken f env) urls apiKey pageToken w =
       processVideoUrls env urls apiKey pageToken w"
    by (simp add: processVideoUrls_def processLoop_retoken)
  from same indep show ?thesis by auto
qed

text \<open>
  On the sample world the search answers with the token \<open>NEXT\<close>, or with any other, and
  the page carries the token of the call.
\<close>

theorem processVideoUrls_nextPageToken_witness:
  "processVideoUrls sampleEnv [''https://youtu.be/search''] ''KEY'' (Some ''tok'') 0 =
      (Inr \<lparr>items = [], nextPageToken = Some ''tok''\<rparr>, 2)
   \<and> nextPageToken \<lparr>items = [], nextPageToken = Some ''tok''\<rparr> = Some ''tok''
   \<and> processVideoUrls (retoken (\<lambda>params w. Some ''OTHER'') sampleEnv)
        [''https://youtu.be/search''] ''KEY'' (Some ''tok'') 0 =
      (Inr \<lparr>items = [], nextPageToken = Some ''tok''\<rparr>, 2)"
proof -
  let ?page = "\<lparr>items = [], nextPageToken = Some ''tok''\<rparr>"
  have run: "processVideoUrls sampleEnv [''https://youtu.be/search''] ''KEY'' (Some ''tok'') 0 = (Inr ?page, 2)"
    by (simp add: processVideoUrls_def sampleEnv_eval isYoutubeShort_def MAX_RESULTS_def)
  note inst = processVideoUrls_nextPageToken
    [of sampleEnv "[''https://youtu.be/search'']" "''KEY''" "Some ''tok''" 0 ?page 2 0
        "\<lambda>params w. Some ''OTHER''"]
  from inst run have tok: "nextPageToken ?page = Some ''tok''"
    by blast
  from inst have "processVideoUrls (retoken (\<lambda>params w. Some ''OTHER'') sampleEnv)
        [''https://youtu.be/search''] ''KEY'' (Some ''tok'') 0 =
      processVideoUrls sampleEnv [''https://youtu.be/search''] ''KEY'' (Some ''tok'') 0"
    by blast
  with run have other: "processVideoUrls (retoken (\<lambda>params w. Some ''OTHER'') sampleEnv)
        [''https://youtu.be/search''] ''KEY'' (Some ''tok'') 0 = (Inr ?page, 2)"
    by simp
  from run tok other show ?thesis by (intro conjI)
qed

section \<open>Properties of the history-file mode\<close>

lemma foldl_addEntryId_set:
  "set (foldl (addEntryId p) acc es) =
     set acc \<union> {i. i \<noteq> [] \<and> (\<exists>e\<in>set es. \<exists>u. titleUrl e = Some u \<and> extractVideoId p u = Some i)}"
proof (induction es arbitrary: acc)
  case Nil
  show ?case by simp
next
  case (Cons e es)
  show ?case
    unfolding foldl_Cons Cons
    by (auto simp: addEntryId_def setAdd_def split: option.splits if_splits)
qed

lemma foldl_addEntryId_distinct:
  "distinct acc \<Longrightarrow> distinct (foldl (addEntryId p) acc es)"
proof (induction es arbitrary: acc)
  case Nil
  then show ?case by simp
next
  case (Cons e es)
  have "distinct (addEntryId p acc e)"
    using Cons.prems by (auto simp: addEntryId_def setAdd_def split: option.splits)
  then show ?case using Cons.IH by simp
qed

lemma foldl_addEntryId_length:
  "length (foldl (addEntryId p) acc es) \<le> length acc + length es"
proof (induction es arbitrary: acc)
  case Nil
  show ?case by simp
next
  case (Cons e es)
  have "length (addEntryId p acc e) \<le> Suc (length acc)"
    by (auto simp: addEntryId_def setAdd_def split: option.splits)
  with Cons[of "addEntryId p acc e"] show ?case by simp
qed

lemma sortRecent_descending:
  "\<forall>a\<in>set (take n (sortRecent es)). \<forall>b\<in>set (drop n (sortRecent es)). time b \<le> time a"
proof -
  have "sorted (map (\<lambda>e. - time e) (take n (sortRecent es) @ drop n (sortRecent es)))"
    by (simp add: sortRecent_def)
  then show ?thesis
    unfolding map_append sorted_append by auto
qed

text \<open>
  C9. \<open>processTakeoutFile\<close> hands to \<open>processVideoUrls\<close>, with no page token, the watch URLs
  \<open>https://youtube.com/watch?v=<id>\<close> of the ids it collects, whatever their number up to
  ten (the limit of five URLs is in \<open>handleUrlInput\<close> only). The ids are distinct, and they are the non-empty ids extracted
  from the chosen entries. The chosen entries are the first ten of the entries whose
  \<open>titleUrl\<close> contains \<open>youtube.com/watch\<close>, sorted by time, latest first: all of them when
  there are fewer than ten, and none of the others is later than a chosen one.
\<close>

theorem processTakeoutFile_delegates:
  "processTakeoutFile env h apiKey w =
     processVideoUrls env (map watchUrl (takeoutVideoIds (newURL env) h)) apiKey None w
   \<and> (\<forall>i. watchUrl i = ''https://youtube.com/watch?v='' @ i)
   \<and> length (map watchUrl (takeoutVideoIds (newURL env) h)) \<le> 10
   \<and> distinct (takeoutVideoIds (newURL env) h)
   \<and> set (takeoutVideoIds (newURL env) h) =
       {i. i \<noteq> [] \<and> (\<exists>e\<in>set (take 10 (sortRecent (filter isWatchEntry h))).
                          \<exists>u. titleUrl e = Some u \<and> extractVideoId (newURL env) u = Some i)}
   \<and> mset (sortRecent (filter isWatchEntry h)) = filter_mset isWatchEntry (mset h)
   \<and> sorted (map (\<lambda>e. - time e) (sortRecent (filter isWatchEntry h)))
   \<and> length (take 10 (sortRecent (filter isWatchEntry h))) = min 10 (length (filter isWatchEntry h))
   \<and> (\<forall>a\<in>set (take 10 (sortRecent (filter isWatchEntry h))).
        \<forall>b\<in>set (drop 10 (sortRecent (filter isWatchEntry h))). time b \<le> time a)
   \<and> (\<forall>e. isWatchEntry e \<longleftrightarrow> (\<exists>u. titleUrl e = Some u \<and> str_includes u ''youtube.com/watch''))"
proof -
  let ?recent = "take 10 (sortRecent (filter isWatchEntry h))"
  have delegate: "processTakeoutFile env h apiKey w =
     processVideoUrls env (map watchUrl (takeoutVideoIds (newURL env) h)) apiKey None w"
    by (simp add: processTakeoutFile_def)
  have synthetic: "\<forall>i. watchUrl i = ''https://youtube.com/watch?v='' @ i"
    by (simp add: watchUrl_def)
  have "length (takeoutVideoIds (newURL env) h) \<le> length ?recent"
    unfolding takeoutVideoIds_def using foldl_addEntryId_length[of "newURL env" "[]" ?recent] by simp
  then have atmost: "length (map watchUrl (takeoutVideoIds (newURL env) h)) \<le> 10"
    by simp
  have dist: "distinct (takeoutVideoIds (newURL env) h)"
    unfolding takeoutVideoIds_def by (rule foldl_addEntryId_distinct) simp
  have ids: "set (takeoutVideoIds (newURL env) h) =
       {i. i \<noteq> [] \<and> (\<exists>e\<in>set ?recent. \<exists>u. titleUrl e = Some u \<and> extractVideoId (newURL env) u = Some i)}"
    unfolding takeoutVideoIds_def foldl_addEntryId_set by simp
  have perm: "mset (sortRecent (filter isWatchEntry h)) = filter_mset isWatchEntry (mset h)"
    by (simp add: sortRecent_def)
  have desc: "sorted (map (\<lambda>e. - time e) (sortRecent (filter isWatchEntry h)))"
    by (simp add: sortRecent_def)
  have len: "length ?recent = min 10 (length (filter isWatchEntry h))"
    by (simp add: sortRecent_def)
  note latest = sortRecent_descending[of 10 "filter isWatchEntry h"]
  have watch: "\<forall>e. isWatchEntry e \<longleftrightarrow> (\<exists>u. titleUrl e = Some u \<and> str_includes u ''youtube.com/watch'')"
    by (auto simp: isWatchEntry_def split: option.splits)
  from delegate synthetic atmost dist ids perm desc len latest watch show ?thesis
    by (intro conjI)
qed

text \<open>
  On the sample history the ten latest watch entries hold seven different videos, and the
  seven URLs go to \<open>processVideoUrls\<close>.
\<close>

theorem processTakeoutFile_delegates_witness:
  "map time (take 10 (sortRecent (filter isWatchEntry sampleHistory))) =
     [11000, 10000, 9000, 8000, 7000, 6000, 5000, 4000, 3000, 2000]
   \<and> takeoutVideoIds plainURL sampleHistory = [''id4'', ''id3'', ''id2'', ''id1'', ''id0'', ''id6'', ''id5'']
   \<and> processTakeoutFile sampleEnv sampleHistory ''KEY'' 0 =
       processVideoUrls sampleEnv
         [''https://youtube.com/watch?v=id4'', ''https://youtube.com/watch?v=id3'',
          ''https://youtube.com/watch?v=id2'', ''https://youtube.com/watch?v=id1'',
          ''https://youtube.com/watch?v=id0'', ''https://youtube.com/watch?v=id6'',
          ''https://youtube.com/watch?v=id5''] ''KEY'' None 0"
proof -
  have times: "map time (take 10 (sortRecent (filter isWatchEntry sampleHistory))) =
     [11000, 10000, 9000, 8000, 7000, 6000, 5000, 4000, 3000, 2000]"
    by code_simp
  have ids: "takeoutVideoIds plainURL sampleHistory = [''id4'', ''id3'', ''id2'', ''id1'', ''id0'', ''id6'', ''id5'']"
    by code_simp
  have parser: "newURL sampleEnv = plainURL" by (simp add: sampleEnv_def)
  from processTakeoutFile_delegates[of sampleEnv sampleHistory "''KEY''" 0]
  have "processTakeoutFile sampleEnv sampleHistory ''KEY'' 0 =
     processVideoUrls sampleEnv (map watchUrl (takeoutVideoIds (newURL sampleEnv) sampleHistory)) ''KEY'' None 0"
    by (elim conjE)
  then have "processTakeoutFile sampleEnv sampleHistory ''KEY'' 0 =
       processVideoUrls sampleEnv
         [''https://youtube.com/watch?v=id4'', ''https://youtube.com/watch?v=id3'',
          ''https://youtube.com/watch?v=id2'', ''https://youtube.com/watch?v=id1'',
          ''https://youtube.com/watch?v=id0'', ''https://youtube.com/watch?v=id6'',
          ''https://youtube.com/watch?v=id5''] ''KEY'' None 0"
    unfolding parser ids by (simp add: watchUrl_def)
  with times ids show ?thesis by (intro conjI)
qed

section \<open>Properties of the shuffle\<close>

lemma concat_splitChunks: "concat (splitChunks videos i) = drop i videos"
proof (induction videos i rule: splitChunks.induct)
  case (1 videos i)
  show ?case
  proof (cases "i < length videos")
    case True
    let ?c = "chunkSize videos"
    have step: "splitChunks videos i = slice i (i + ?c) videos # splitChunks videos (i + ?c)"
      using True by (subst splitChunks.simps) simp
    have tail: "drop (i + ?c) videos = drop ?c (drop i videos)"
      by (simp add: add.commute)
    have "concat (splitChunks videos i) = take ?c (drop i videos) @ drop ?c (drop i videos)"
      unfolding step concat.simps 1[OF True] tail by (simp add: slice_def)
    then show ?thesis
      unfolding append_take_drop_id .
  next
    case False
    then show ?thesis by (simp add: splitChunks.simps[of videos i])
  qed
qed

lemma swap_mset: "i < length chunk \<Longrightarrow> j < length chunk \<Longrightarrow> mset (swap i j chunk) = mset chunk"
  unfolding swap_def using mset_swap[of j chunk i] by simp

lemma swap_length: "length (swap i j chunk) = length chunk"
  by (simp add: swap_def)

lemma random_index:
  assumes "0 \<le> r" "r < 1"
  shows "nat \<lfloor>r * real (Suc i + 1)\<rfloor> < Suc i + 1"
proof -
  have "r * real (Suc i + 1) < real (Suc i + 1)"
    using assms by simp
  then have "\<lfloor>r * real (Suc i + 1)\<rfloor> < int (Suc i + 1)"
    by (simp add: floor_less_iff)
  then show ?thesis by linarith
qed

lemma fisherYates_mset:
  assumes "\<forall>k. 0 \<le> rnd k \<and> rnd k < 1"
  shows "i < length chunk \<Longrightarrow> mset (fst (fisherYates rnd k i chunk)) = mset chunk"
proof (induction i arbitrary: k chunk)
  case 0
  show ?case by simp
next
  case (Suc i)
  let ?j = "nat \<lfloor>rnd k * real (Suc i + 1)\<rfloor>"
  have "?j < Suc i + 1"
    using random_index[of "rnd k" i] assms by blast
  with Suc.prems have j: "?j < length chunk" by linarith
  have "i < length (swap (Suc i) ?j chunk)"
    using Suc.prems by (simp add: swap_length)
  then have "mset (fst (fisherYates rnd (Suc k) i (swap (Suc i) ?j chunk))) = mset (swap (Suc i) ?j chunk)"
    by (rule Suc.IH)
  then show ?case using swap_mset[OF Suc.prems j] by simp
qed

lemma fisherYates_chunk:
  assumes "\<forall>k. 0 \<le> rnd k \<and> rnd k < 1"
  shows "mset (fst (fisherYates rnd k (length chunk - 1) chunk)) = mset chunk"
proof (cases chunk)
  case Nil
  then show ?thesis by simp
next
  case (Cons x xs)
  then have "length chunk - 1 < length chunk" by simp
  then show ?thesis by (rule fisherYates_mset[OF assms])
qed

lemma shuffleChunks_mset:
  assumes "\<forall>k. 0 \<le> rnd k \<and> rnd k < 1"
  shows "map mset (fst (shuffleChunks rnd k chunks)) = map mset chunks"
proof (induction chunks arbitrary: k)
  case Nil
  show ?case by simp
next
  case (Cons chunk chunks)
  obtain chunk' k' where fy: "fisherYates rnd k (length chunk - 1) chunk = (chunk', k')"
    by (cases "fisherYates rnd k (length chunk - 1) chunk")
  obtain chunks' k'' where sc: "shuffleChunks rnd k' chunks = (chunks', k'')"
    by (cases "shuffleChunks rnd k' chunks")
  have c: "mset chunk' = mset chunk"
    using fisherYates_chunk[OF assms, of k chunk] fy by simp
  have cs: "map mset chunks' = map mset chunks"
    using Cons[of k'] sc by simp
  show ?case using fy sc c cs by simp
qed

text \<open>One round of the interleaving takes the element at index \<open>m\<close> of every chunk that has one.\<close>

lemma interleave_round:
  "mset (concat (map (\<lambda>chunk. if m < length chunk then [chunk ! m] else []) chunks))
     + (\<Sum>chunk\<leftarrow>chunks. mset (take m chunk))
   = (\<Sum>chunk\<leftarrow>chunks. mset (take (Suc m) chunk))"
proof (induction chunks)
  case Nil
  show ?case by simp
next
  case (Cons c chunks)
  have one: "mset (if m < length c then [c ! m] else []) + mset (take m c) = mset (take (Suc m) c)"
    by (simp add: take_Suc_conv_app_nth)
  have "mset (concat (map (\<lambda>chunk. if m < length chunk then [chunk ! m] else []) (c # chunks)))
          + (\<Sum>chunk\<leftarrow>c # chunks. mset (take m chunk))
        = (mset (if m < length c then [c ! m] else []) + mset (take m c))
          + (mset (concat (map (\<lambda>chunk. if m < length chunk then [chunk ! m] else []) chunks))
             + (\<Sum>chunk\<leftarrow>chunks. mset (take m chunk)))"
    by (simp add: ac_simps)
  also have "\<dots> = mset (take (Suc m) c) + (\<Sum>chunk\<leftarrow>chunks. mset (take (Suc m) chunk))"
    unfolding one Cons ..
  finally show ?case by simp
qed

lemma interleave_rounds:
  "mset (concat (map (\<lambda>i. concat (map (\<lambda>chunk. if i < length chunk then [chunk ! i] else []) chunks))
                    [0 ..< m]))
   = (\<Sum>chunk\<leftarrow>chunks. mset (take m chunk))"
proof (induction m)
  case 0
  show ?case by (induction chunks) simp_all
next
  case (Suc m)
  show ?case using interleave_round[of m chunks] Suc by (simp add: ac_simps)
qed

lemma maxLength_bound: "chunk \<in> set chunks \<Longrightarrow> length chunk \<le> maxLength chunks"
  unfolding maxLength_def by (induction chunks) auto

lemma interleave_mset: "mset (interleave chunks) = (\<Sum>chunk\<leftarrow>chunks. mset chunk)"
proof -
  have "(\<Sum>chunk\<leftarrow>chunks. mset (take (maxLength chunks) chunk)) = (\<Sum>chunk\<leftarrow>chunks. mset chunk)"
    by (rule arg_cong[where f = sum_list], rule map_cong) (simp_all add: maxLength_bound)
  then show ?thesis
    unfolding interleave_def interleave_rounds by simp
qed

lemma shuffleWithRelevance_mset:
  assumes "\<forall>k. 0 \<le> rnd k \<and> rnd k < 1"
  shows "mset (fst (shuffleWithRelevance rnd k videos)) = mset videos"
proof -
  obtain chunks k' where sc: "shuffleChunks rnd k (splitChunks videos 0) = (chunks, k')"
    by (cases "shuffleChunks rnd k (splitChunks videos 0)")
  have "map mset chunks = map mset (splitChunks videos 0)"
    using shuffleChunks_mset[OF assms, of k "splitChunks videos 0"] sc by simp
  then have "(\<Sum>chunk\<leftarrow>chunks. mset chunk) = (\<Sum>chunk\<leftarrow>splitChunks videos 0. mset chunk)"
    by simp
  also have "\<dots> = mset (concat (splitChunks videos 0))"
    by (simp add: mset_concat)
  also have "\<dots> = mset videos"
    by (simp add: concat_splitChunks)
  finally show ?thesis
    using sc by (simp add: shuffleWithRelevance_def interleave_mset)
qed

lemma shuffleWithRelevance_short:
  "length videos \<le> 1 \<Longrightarrow> fst (shuffleWithRelevance rnd k videos) = videos"
proof (cases videos)
  case Nil
  then show ?thesis
    by (simp add: shuffleWithRelevance_def splitChunks.simps[of "[]"] interleave_def maxLength_def)
next
  case (Cons x xs)
  assume "length videos \<le> 1"
  with Cons have v: "videos = [x]" by simp
  have "splitChunks [x] (Suc 0) = []"
    by (simp add: splitChunks.simps[of "[x]" "Suc 0"])
  then have "splitChunks [x] 0 = [[x]]"
    by (simp add: splitChunks.simps[of "[x]" 0] chunkSize_def slice_def)
  then show ?thesis
    unfolding v by (simp add: shuffleWithRelevance_def interleave_def maxLength_def)
qed

text \<open>
  C4. With a random source whose values lie in \<open>[0, 1)\<close>, as those of \<open>Math.random\<close> do, the
  output of \<open>shuffleWithRelevance\<close> has the same multiset of videos as its input, and so
  the same length: nothing is added, nothing dropped. For an input of length 0 or 1 the
  output is the input, whatever the random source.
\<close>

theorem shuffleWithRelevance_permutation:
  "((\<forall>k. 0 \<le> rnd k \<and> rnd k < 1) \<longrightarrow>
      mset (fst (shuffleWithRelevance rnd k0 videos)) = mset videos
      \<and> length (fst (shuffleWithRelevance rnd k0 videos)) = length videos)
   \<and> (length videos \<le> 1 \<longrightarrow> fst (shuffleWithRelevance rnd k0 videos) = videos)"
proof (intro conjI impI)
  assume range: "\<forall>k. 0 \<le> rnd k \<and> rnd k < 1"
  show perm: "mset (fst (shuffleWithRelevance rnd k0 videos)) = mset videos"
    by (rule shuffleWithRelevance_mset[OF range])
  show "length (fst (shuffleWithRelevance rnd k0 videos)) = length videos"
    using perm by (rule mset_eq_length)
next
  assume "length videos \<le> 1"
  then show "fst (shuffleWithRelevance rnd k0 videos) = videos"
    by (rule shuffleWithRelevance_short)
qed

text \<open>
  Seven videos \<open>a\<close> to \<open>g\<close> make the chunks \<open>abc\<close>, \<open>def\<close> and \<open>g\<close>; the sample source turns
  them into \<open>cba\<close>, \<open>edf\<close> and \<open>g\<close>, and the interleaving gives \<open>c e g b d a f\<close>.
\<close>

theorem shuffleWithRelevance_permutation_witness:
  "(\<forall>k. 0 \<le> sampleRnd k \<and> sampleRnd k < 1)
   \<and> fst (shuffleWithRelevance sampleRnd 0 (sampleList [''a'', ''b'', ''c'', ''d'', ''e'', ''f'', ''g''])) =
       sampleList [''c'', ''e'', ''g'', ''b'', ''d'', ''a'', ''f'']
   \<and> mset (sampleList [''c'', ''e'', ''g'', ''b'', ''d'', ''a'', ''f'']) =
       mset (sampleList [''a'', ''b'', ''c'', ''d'', ''e'', ''f'', ''g''])
   \<and> length (sampleList [''x'']) \<le> 1
   \<and> fst (shuffleWithRelevance sampleRnd 0 (sampleList [''x''])) = sampleList [''x'']"
proof -
  let ?videos = "sampleList [''a'', ''b'', ''c'', ''d'', ''e'', ''f'', ''g'']"
  have range: "\<forall>k. 0 \<le> sampleRnd k \<and> sampleRnd k < 1"
    by (simp add: sampleRnd_def)
  have run: "fst (shuffleWithRelevance sampleRnd 0 ?videos) =
       sampleList [''c'', ''e'', ''g'', ''b'', ''d'', ''a'', ''f'']"
    by code_simp
  note inst = shuffleWithRelevance_permutation[of sampleRnd 0 ?videos]
  from inst range have "mset (fst (shuffleWithRelevance sampleRnd 0 ?videos)) = mset ?videos"
    by blast
  then have perm: "mset (sampleList [''c'', ''e'', ''g'', ''b'', ''d'', ''a'', ''f'']) = mset ?videos"
    unfolding run .
  have one: "length (sampleList [''x'']) \<le> 1"
    by (simp add: sampleList_def)
  with shuffleWithRelevance_permutation[of sampleRnd 0 "sampleList [''x'']"]
  have single: "fst (shuffleWithRelevance sampleRnd 0 (sampleList [''x''])) = sampleList [''x'']"
    by blast
  from range run perm one single show ?thesis by (intro conjI)
qed

section \<open>The popularity term on a video without views\<close>

lemmas popularity_eval =
  popularityScore_def addPopularity_def viewCountOf_def orZero_def parseIntField_def
  parseInt_def isWhiteSpace_def isRadixDigit_def digitValue_def digitsValue_def startsWith_def
  roundDouble_eval

text \<open>
  For a positive number of views the term is \<open>min(0.4, log10(viewCount) / 10)\<close>, the
  quotient rounded.
\<close>

lemma popularityScore_positive:
  "viewCountOf st = Fin v \<Longrightarrow> 0 < v \<Longrightarrow>
   popularityScore st = js_min (Fin (4 / 10)) (roundDouble (log 10 v / 10))"
  by (simp add: popularityScore_def)

text \<open>
  C6. For a video with \<open>viewCount\<close> \<open>0\<close> (or none, which \<open>|| 0\<close> turns into 0) the term is
  \<open>Math.min(0.4, Math.log10(0) / 10)\<close>, that is \<open>-Infinity\<close>, and the score becomes
  \<open>-Infinity\<close>: the term does not contribute 0. A negative count gives \<open>NaN\<close>.
\<close>

theorem popularityScore_zero_views:
  "popularityScore \<lparr>viewCount = Some ''0'', likeCount = Some ''0''\<rparr> = NegInf
   \<and> addPopularity (Fin (1 / 10)) \<lparr>viewCount = Some ''0'', likeCount = Some ''0''\<rparr> = NegInf
   \<and> popularityScore \<lparr>viewCount = None, likeCount = None\<rparr> = NegInf
   \<and> popularityScore \<lparr>viewCount = Some ''-5'', likeCount = Some ''0''\<rparr> = NaN"
  by (simp add: popularity_eval)

section \<open>Further properties\<close>

lemma afterPT_None_iff: "afterPT d = None \<longleftrightarrow> \<not> str_includes d ''PT''"
  by (induction d rule: afterPT.induct) (auto simp: startsWith_def)

text \<open>
  \<open>parseDuration\<close> returns a number exactly when the duration contains \<open>PT\<close>, and throws a
  \<open>TypeError\<close> (reading the groups of a null match) exactly when it does not.
\<close>

theorem parseDuration_throws_iff:
  "(parseDuration d = Inl TypeError) = (\<not> str_includes d ''PT'')
   \<and> (\<exists>seconds. parseDuration d = Inr seconds) = str_includes d ''PT''"
proof (cases "afterPT d")
  case None
  then show ?thesis
    using afterPT_None_iff[of d] by (simp add: parseDuration_def matchDuration_def)
next
  case (Some rest)
  then have "str_includes d ''PT''"
    using afterPT_None_iff[of d] by simp
  with Some show ?thesis
    by (simp add: parseDuration_def matchDuration_def Let_def split: prod.splits)
qed

text \<open>
  When every source of an accepted request is skipped, \<open>processVideoUrls\<close> throws
  \<open>No recommendations found\<close>, an error without \<open>code\<close>, and \<open>handleUrlInput\<close> answers with
  status 500 and the message \<open>Failed to get recommendations\<close>.
\<close>

theorem handleUrlInput_all_skipped:
  "acceptedUrls env urls \<and> fst (processLoop env apiKey pageToken urls [] w) = Inr [] \<longrightarrow>
   fst (handleUrlInput env (Some urls) pageToken apiKey w) =
     HttpError 500 ''Failed to get recommendations''"
proof
  assume a: "acceptedUrls env urls \<and> fst (processLoop env apiKey pageToken urls [] w) = Inr []"
  obtain w1 where loop: "processLoop env apiKey pageToken urls [] w = (Inr [], w1)"
    using a by (cases "processLoop env apiKey pageToken urls [] w") auto
  then have thrown: "processVideoUrls env urls apiKey pageToken w = (Inl NoRecommendationsFound, w1)"
    by (simp add: processVideoUrls_def)
  from a have "urls \<noteq> []" "\<not> 5 < length urls"
    "filter truthy (map (extractVideoId (newURL env)) urls) \<noteq> []"
    by (auto simp: acceptedUrls_def list_ex_iff filter_empty_conv)
  with thrown show "fst (handleUrlInput env (Some urls) pageToken apiKey w) =
     HttpError 500 ''Failed to get recommendations''"
    by (simp add: handleUrlInput_def errorCode_def)
qed

theorem handleUrlInput_all_skipped_witness:
  "acceptedUrls sampleEnv [''https://youtu.be/gone'']
   \<and> fst (processLoop sampleEnv ''KEY'' None [''https://youtu.be/gone''] [] 0) = Inr []
   \<and> fst (handleUrlInput sampleEnv (Some [''https://youtu.be/gone'']) None ''KEY'' 0) =
       HttpError 500 ''Failed to get recommendations''"
proof -
  have acc: "acceptedUrls sampleEnv [''https://youtu.be/gone'']"
    by (simp add: acceptedUrls_def sampleEnv_eval)
  have loop: "fst (processLoop sampleEnv ''KEY'' None [''https://youtu.be/gone''] [] 0) = Inr []"
    by (simp add: sampleEnv_eval)
  from handleUrlInput_all_skipped[of sampleEnv "[''https://youtu.be/gone'']" "''KEY''" None 0] acc loop
  have "fst (handleUrlInput sampleEnv (Some [''https://youtu.be/gone'']) None ''KEY'' 0) =
       HttpError 500 ''Failed to get recommendations''"
    by blast
  with acc loop show ?thesis by (intro conjI)
qed

end
